theory Spec2Isabelle
  imports Main "HOL-Library.Multiset"
begin

section \<open>JavaScript values used by the leaderboard scripts\<close>

text \<open>
  The scripts handle optional and nullable strings (\<^verbatim>\<open>title?: string | null\<close>).
  Such a value is \<^verbatim>\<open>undefined\<close>, \<^verbatim>\<open>null\<close> or a string. Strings are lists of
  characters; \<^verbatim>\<open>number\<close> values that count things or carry points are integers
  (the scoring table holds integers only, and JavaScript adds integers exactly below
  \<open>2^53\<close>).
\<close>

datatype jsstr = Undefined | Null | Str string

text \<open>Interpolation in a template literal, \<^verbatim>\<open>`${v}`\<close>.\<close>

fun template :: "jsstr \<Rightarrow> string" where
  "template Undefined = ''undefined''"
| "template Null = ''null''"
| "template (Str s) = s"

text \<open>Nullish coalescing, \<^verbatim>\<open>a ?? b\<close>: only \<^verbatim>\<open>null\<close> and \<^verbatim>\<open>undefined\<close> give way.\<close>

fun nullish :: "jsstr \<Rightarrow> jsstr \<Rightarrow> jsstr" where
  "nullish (Str s) b = Str s"
| "nullish Null b = b"
| "nullish Undefined b = b"

text \<open>Truthiness of an optional string: the empty string is falsy as well.\<close>

fun truthy :: "jsstr \<Rightarrow> bool" where
  "truthy (Str s) = (s \<noteq> [])"
| "truthy Null = False"
| "truthy Undefined = False"

text \<open>\<^verbatim>\<open>s.endsWith(t)\<close>, \<^verbatim>\<open>s.startsWith(t)\<close> and \<^verbatim>\<open>s.includes(t)\<close>.\<close>

fun startsWith :: "string \<Rightarrow> string \<Rightarrow> bool" where
  "startsWith s [] = True"
| "startsWith [] (c # t) = False"
| "startsWith (d # s) (c # t) = (d = c \<and> startsWith s t)"

definition endsWith :: "string \<Rightarrow> string \<Rightarrow> bool" where
  "endsWith s t = startsWith (rev s) (rev t)"

fun includesStr :: "string \<Rightarrow> string \<Rightarrow> bool" where
  "includesStr [] t = (t = [])"
| "includesStr (c # s) t = (startsWith (c # s) t \<or> includesStr s t)"

text \<open>
  \<^verbatim>\<open>s.toLowerCase()\<close>: the letters A to Z are mapped to a to z, which is what
  JavaScript does on ASCII text.
\<close>

definition lowerChar :: "char \<Rightarrow> char" where
  "lowerChar c =
     (case map_of (zip ''ABCDEFGHIJKLMNOPQRSTUVWXYZ'' ''abcdefghijklmnopqrstuvwxyz'') c of
        None \<Rightarrow> c
      | Some l \<Rightarrow> l)"

definition toLowerCase :: "string \<Rightarrow> string" where
  "toLowerCase s = map lowerChar s"

text \<open>\<^verbatim>\<open>s.split("T")[0]\<close>: the part of \<open>s\<close> before the first letter T.\<close>

definition splitT0 :: "string \<Rightarrow> string" where
  "splitT0 s = takeWhile (\<lambda>c. c \<noteq> CHR ''T'') s"

text \<open>
  \<^verbatim>\<open>arr.sort(cmp)\<close>: a stable sort; \<open>a\<close> stays before \<open>b\<close> unless the comparator
  is positive on them. The model inserts from the right, which is stable.
\<close>

fun insertBy :: "('a \<Rightarrow> 'a \<Rightarrow> int) \<Rightarrow> 'a \<Rightarrow> 'a list \<Rightarrow> 'a list" where
  "insertBy cmp x [] = [x]"
| "insertBy cmp x (y # ys) =
     (if cmp x y \<le> 0 then x # y # ys else y # insertBy cmp x ys)"

fun sortBy :: "('a \<Rightarrow> 'a \<Rightarrow> int) \<Rightarrow> 'a list \<Rightarrow> 'a list" where
  "sortBy cmp [] = []"
| "sortBy cmp (x # xs) = insertBy cmp x (sortBy cmp xs)"

text \<open>
  A JavaScript \<^verbatim>\<open>Map\<close>, and a plain object used as a record of keys, keep their
  keys in insertion order: an association list. Setting a key that is present
  replaces its value in place, setting a new key appends it.
\<close>

fun mapGet :: "('k \<times> 'v) list \<Rightarrow> 'k \<Rightarrow> 'v option" where
  "mapGet [] k = None"
| "mapGet ((k', v) # m) k = (if k = k' then Some v else mapGet m k)"

fun mapSet :: "('k \<times> 'v) list \<Rightarrow> 'k \<Rightarrow> 'v \<Rightarrow> ('k \<times> 'v) list" where
  "mapSet [] k v = [(k, v)]"
| "mapSet ((k', v') # m) k v =
     (if k = k' then (k', v) # m else (k', v') # mapSet m k v)"

text \<open>Mutating, through the reference that \<^verbatim>\<open>get\<close> returned, the value stored at a key.\<close>

fun mapModify :: "('k \<times> 'v) list \<Rightarrow> 'k \<Rightarrow> ('v \<Rightarrow> 'v) \<Rightarrow> ('k \<times> 'v) list" where
  "mapModify [] k f = []"
| "mapModify ((k', v) # m) k f =
     (if k = k' then (k', f v) # m else (k', v) # mapModify m k f)"

section \<open>Data model of \<^verbatim>\<open>scripts/generateLeaderboard.ts\<close>\<close>

datatype ActivityType =
    PR_opened | PR_merged | Issue_opened | Review_submitted
  | Issue_labeled | Issue_assigned | Issue_closed

text \<open>The string each member of the union type \<^verbatim>\<open>RawActivity["type"]\<close> stands for.\<close>

fun typeLabel :: "ActivityType \<Rightarrow> string" where
  "typeLabel PR_opened = ''PR opened''"
| "typeLabel PR_merged = ''PR merged''"
| "typeLabel Issue_opened = ''Issue opened''"
| "typeLabel Review_submitted = ''Review submitted''"
| "typeLabel Issue_labeled = ''Issue labeled''"
| "typeLabel Issue_assigned = ''Issue assigned''"
| "typeLabel Issue_closed = ''Issue closed''"

fun POINTS :: "ActivityType \<Rightarrow> int" where
  "POINTS PR_opened = 2"
| "POINTS PR_merged = 5"
| "POINTS Issue_opened = 1"
| "POINTS Review_submitted = 4"
| "POINTS Issue_labeled = 2"
| "POINTS Issue_assigned = 2"
| "POINTS Issue_closed = 1"

record RawActivity =
  ra_type :: ActivityType
  ra_occured_at :: string
  ra_title :: jsstr
  ra_link :: jsstr
  ra_points :: int

record DailyActivity =
  da_date :: string
  da_count :: int
  da_points :: int

text \<open>One value of \<^verbatim>\<open>activity_breakdown\<close>, \<^verbatim>\<open>{ count, points }\<close>.\<close>

record Bucket =
  b_count :: int
  b_points :: int

record Contributor =
  username :: string
  name :: jsstr
  avatar_url :: jsstr
  role :: string
  total_points :: int
  activity_breakdown :: "(ActivityType \<times> Bucket) list"
  daily_activity :: "DailyActivity list"
  raw_activities :: "RawActivity list"

section \<open>Deduplication and recompute\<close>

text \<open>
  \<^verbatim>\<open>if (!m[k]) m[k] = { count: 0, points: 0 }; m[k].count++; m[k].points += p\<close>,
  on the breakdown object and on the per-day \<^verbatim>\<open>Map\<close> alike.
\<close>

fun bumpBucket :: "('k \<times> Bucket) list \<Rightarrow> 'k \<Rightarrow> int \<Rightarrow> ('k \<times> Bucket) list" where
  "bumpBucket [] k p = [(k, \<lparr>b_count = 0 + 1, b_points = 0 + p\<rparr>)]"
| "bumpBucket ((k', b) # m) k p =
     (if k = k'
      then (k', \<lparr>b_count = b_count b + 1, b_points = b_points b + p\<rparr>) # m
      else (k', b) # bumpBucket m k p)"

text \<open>The key of the \<^verbatim>\<open>seen\<close> set: \<^verbatim>\<open>`${act.type}:${act.occured_at}:${act.link ?? act.title}`\<close>.\<close>

definition dedupKey :: "RawActivity \<Rightarrow> string" where
  "dedupKey act =
     typeLabel (ra_type act) @ '':'' @ ra_occured_at act @ '':'' @
     template (nullish (ra_link act) (ra_title act))"

text \<open>The \<^verbatim>\<open>filter\<close> callback with its \<^verbatim>\<open>seen\<close> set, run over the list from the left.\<close>

fun dedupFilter :: "string set \<Rightarrow> RawActivity list \<Rightarrow> RawActivity list" where
  "dedupFilter seen [] = []"
| "dedupFilter seen (act # acts) =
     (if dedupKey act \<in> seen then dedupFilter seen acts
      else act # dedupFilter (insert (dedupKey act) seen) acts)"

text \<open>
  The recompute loop over the deduplicated activities; its state is
  \<^verbatim>\<open>total_points\<close>, \<^verbatim>\<open>activity_breakdown\<close> and \<^verbatim>\<open>dailyMap\<close>. The day is
  \<^verbatim>\<open>act.occured_at.slice(0, 10)\<close>.
\<close>

fun recalcLoop ::
  "RawActivity list \<Rightarrow> int \<times> (ActivityType \<times> Bucket) list \<times> (string \<times> Bucket) list
     \<Rightarrow> int \<times> (ActivityType \<times> Bucket) list \<times> (string \<times> Bucket) list" where
  "recalcLoop [] st = st"
| "recalcLoop (act # acts) (total_pts, breakdown, dailyMap) =
     recalcLoop acts
       (total_pts + ra_points act,
        bumpBucket breakdown (ra_type act) (ra_points act),
        bumpBucket dailyMap (take 10 (ra_occured_at act)) (ra_points act))"

definition dailyEntry :: "string \<times> Bucket \<Rightarrow> DailyActivity" where
  "dailyEntry e = \<lparr>da_date = fst e, da_count = b_count (snd e), da_points = b_points (snd e)\<rparr>"

text \<open>
  The body of the loop over \<^verbatim>\<open>users.values()\<close>. The days are sorted with
  \<^verbatim>\<open>(a, b) => b.date.localeCompare(a.date)\<close>; \<open>localeCompare\<close> belongs to the
  platform's collation library and is a parameter here.
\<close>

definition recalculateUser :: "(string \<Rightarrow> string \<Rightarrow> int) \<Rightarrow> Contributor \<Rightarrow> Contributor" where
  "recalculateUser localeCompare user =
     (let acts = dedupFilter {} (raw_activities user);
          st = recalcLoop acts (0, [], [])
      in user\<lparr>raw_activities := acts,
              total_points := fst st,
              activity_breakdown := fst (snd st),
              daily_activity :=
                sortBy (\<lambda>a b. localeCompare (da_date b) (da_date a))
                  (map dailyEntry (snd (snd st)))\<rparr>)"

definition deduplicateAndRecalculate ::
  "(string \<Rightarrow> string \<Rightarrow> int) \<Rightarrow> (string \<times> Contributor) list \<Rightarrow> (string \<times> Contributor) list" where
  "deduplicateAndRecalculate localeCompare users =
     map (\<lambda>(k, user). (k, recalculateUser localeCompare user)) users"

text \<open>
  The identity of a raw activity as the data model describes it: the type, the
  timestamp, and the link if it is neither null nor undefined, else the title (an
  empty link counts as a link, as it does for \<^verbatim>\<open>??\<close>).
\<close>

definition identityKey :: "RawActivity \<Rightarrow> ActivityType \<times> string \<times> jsstr" where
  "identityKey act = (ra_type act, ra_occured_at act, nullish (ra_link act) (ra_title act))"

text \<open>A comparator to run examples with: code-unit order, as \<open>localeCompare\<close> gives on ISO dates.\<close>

fun codeUnitCompare :: "string \<Rightarrow> string \<Rightarrow> int" where
  "codeUnitCompare [] [] = 0"
| "codeUnitCompare [] (d # t) = -1"
| "codeUnitCompare (c # s) [] = 1"
| "codeUnitCompare (c # s) (d # t) =
     (if (of_char c :: nat) < of_char d then -1
      else if (of_char d :: nat) < of_char c then 1
      else codeUnitCompare s t)"

section \<open>What the run takes from outside\<close>

text \<open>
  The team lists of \<^verbatim>\<open>lib/team-data\<close> and the platform's library functions are
  parameters of the model: \<open>localeCompare\<close>; \<open>parseDate s\<close>, the milliseconds of
  \<^verbatim>\<open>new Date(s)\<close>, \<open>None\<close> for an invalid date (every comparison with it is
  false); \<open>isoDate\<close>, the day of \<^verbatim>\<open>toISOString()\<close>; \<open>urlPathParts u\<close>, the
  non-empty segments of \<^verbatim>\<open>new URL(u).pathname\<close>, \<open>None\<close> when the constructor
  throws; \<open>isNaNNumber s\<close> for \<^verbatim>\<open>isNaN(Number(s))\<close>; \<open>getDate t\<close>, the day of
  the month of the time value \<open>t\<close> on the local calendar; \<open>setDate t k\<close>, the
  time value of a \<^verbatim>\<open>Date\<close> of time value \<open>t\<close> after \<^verbatim>\<open>setDate(k)\<close>.
\<close>

record Env =
  coreTeamMembers :: "string list"
  alumniMembers :: "string list"
  localeCompare :: "string \<Rightarrow> string \<Rightarrow> int"
  parseDate :: "string \<Rightarrow> int option"
  isoDate :: "int \<Rightarrow> string"
  urlPathParts :: "string \<Rightarrow> string list option"
  isNaNNumber :: "string \<Rightarrow> bool"
  getDate :: "int \<Rightarrow> int"
  setDate :: "int \<Rightarrow> int \<Rightarrow> int"

text \<open>\<^verbatim>\<open>a < b\<close> and \<^verbatim>\<open>a >= b\<close> between a parsed date and a valid one.\<close>

fun dateLess :: "int option \<Rightarrow> int \<Rightarrow> bool" where
  "dateLess None b = False"
| "dateLess (Some a) b = (a < b)"

fun dateGreater :: "int option \<Rightarrow> int \<Rightarrow> bool" where
  "dateGreater None b = False"
| "dateGreater (Some a) b = (a > b)"

fun dateGeq :: "int option \<Rightarrow> int \<Rightarrow> bool" where
  "dateGeq None b = False"
| "dateGeq (Some a) b = (a \<ge> b)"

text \<open>
  \<^verbatim>\<open>const d = new Date(); d.setDate(d.getDate() - n); return d\<close>, for the clock
  reading \<open>t\<close>: the day of the local calendar is moved back by \<open>n\<close>, the local
  time of day is kept.
\<close>

definition daysAgo :: "Env \<Rightarrow> int \<Rightarrow> int \<Rightarrow> int" where
  "daysAgo env t n = setDate env t (getDate env t - n)"

text \<open>Decimal digits of a number in a template literal.\<close>

definition digitChar :: "nat \<Rightarrow> char" where
  "digitChar d = ''0123456789'' ! d"

fun showNat :: "nat \<Rightarrow> string" where
  "showNat n =
     (if n < 10 then [digitChar n]
      else showNat (n div 10) @ [digitChar (n mod 10)])"

declare showNat.simps [simp del]

record GitHubUser =
  login :: string
  user_type :: jsstr
  user_name :: jsstr
  user_avatar_url :: jsstr

record GitHubSearchItem =
  si_user :: GitHubUser
  si_title :: string
  si_html_url :: string
  si_created_at :: string
  si_closed_at :: jsstr

record GitHubPR =
  pr_number :: nat
  pr_user :: GitHubUser

record GitHubReview =
  rv_user :: GitHubUser
  rv_state :: string
  rv_submitted_at :: string

record GitHubIssueEvent =
  ev_event :: string
  ev_actor :: GitHubUser
  ev_created_at :: string
  ev_label :: "string option"
  ev_assignee :: "string option"

section \<open>Helpers of the generator\<close>

definition isSpace :: "char \<Rightarrow> bool" where
  "isSpace c = (c \<in> set [CHR '' '', CHR 0x09, CHR 0x0A, CHR 0x0B, CHR 0x0C, CHR 0x0D])"

text \<open>
  \<^verbatim>\<open>.replace(/\s+/g, " ")\<close>: every run of white space becomes one blank. The
  flag tells whether the character before was white space.
\<close>

fun collapseSpaces :: "bool \<Rightarrow> string \<Rightarrow> string" where
  "collapseSpaces inRun [] = []"
| "collapseSpaces inRun (c # s) =
     (if isSpace c
      then (if inRun then collapseSpaces True s else CHR '' '' # collapseSpaces True s)
      else c # collapseSpaces False s)"

definition trim :: "string \<Rightarrow> string" where
  "trim s = rev (dropWhile isSpace (rev (dropWhile isSpace s)))"

definition sanitizeTitle :: "jsstr \<Rightarrow> jsstr" where
  "sanitizeTitle title =
     (case title of
        Str s \<Rightarrow>
          if s = [] then Null
          else Str (trim (collapseSpaces False
                 (concat (map (\<lambda>c. if c = CHR '':'' then '' - '' else [c])
                    (filter (\<lambda>c. c \<noteq> CHR ''['' \<and> c \<noteq> CHR '']'') s)))))
      | _ \<Rightarrow> Null)"

text \<open>\<open>isBotUser\<close> takes a user object that may be \<^verbatim>\<open>null\<close>.\<close>

fun isBotUser :: "GitHubUser option \<Rightarrow> bool" where
  "isBotUser None = True"
| "isBotUser (Some user) =
     (if login user = [] then True
      else if truthy (user_type user) \<and> user_type user \<noteq> Str ''User'' then True
      else endsWith (login user) ''[bot]'')"

text \<open>\<open>chunk\<close> is called with the sizes 5 and 10 only; the size is positive.\<close>

function chunk :: "'a list \<Rightarrow> nat \<Rightarrow> 'a list list" where
  "chunk arr sz = (if arr = [] \<or> sz = 0 then [] else take sz arr # chunk (drop sz arr) sz)"
  by pat_completeness auto
termination
  by (relation "measure (\<lambda>(arr, sz). length arr)") auto

definition ensureUser ::
  "Env \<Rightarrow> (string \<times> Contributor) list \<Rightarrow> GitHubUser \<Rightarrow> (string \<times> Contributor) list" where
  "ensureUser env users user =
     (if mapGet users (login user) = None
      then mapSet users (login user)
             \<lparr>username = login user,
              name = nullish (user_name user) Null,
              avatar_url = nullish (user_avatar_url user) Null,
              role =
                (if toLowerCase (login user) \<in> set (map toLowerCase (coreTeamMembers env))
                 then ''Maintainer''
                 else if toLowerCase (login user) \<in> set (map toLowerCase (alumniMembers env))
                 then ''Alumni''
                 else ''Contributor''),
              total_points = 0,
              activity_breakdown = [],
              daily_activity = [],
              raw_activities = []\<rparr>
      else users)"

text \<open>\<^verbatim>\<open>daily_activity.find(d => d.date === day)\<close>, then the update or the push.\<close>

fun bumpDay :: "DailyActivity list \<Rightarrow> string \<Rightarrow> int \<Rightarrow> DailyActivity list" where
  "bumpDay [] day p = [\<lparr>da_date = day, da_count = 1, da_points = p\<rparr>]"
| "bumpDay (d # ds) day p =
     (if da_date d = day
      then d\<lparr>da_count := da_count d + 1, da_points := da_points d + p\<rparr> # ds
      else d # bumpDay ds day p)"

definition addActivity ::
  "Contributor \<Rightarrow> ActivityType \<Rightarrow> string \<Rightarrow> int \<Rightarrow> jsstr \<Rightarrow> jsstr \<Rightarrow> Contributor" where
  "addActivity entry ty date pts title link =
     entry\<lparr>total_points := total_points entry + pts,
           activity_breakdown := bumpBucket (activity_breakdown entry) ty pts,
           daily_activity := bumpDay (daily_activity entry) (splitT0 date) pts,
           raw_activities := raw_activities entry @
             [\<lparr>ra_type = ty, ra_occured_at = date, ra_title = sanitizeTitle title,
               ra_link = nullish link Null, ra_points = pts\<rparr>]\<rparr>"

text \<open>\<^verbatim>\<open>addActivity(ensureUser(users, user), ...)\<close>: the entry is mutated inside the map.\<close>

definition recordActivity ::
  "Env \<Rightarrow> (string \<times> Contributor) list \<Rightarrow> GitHubUser \<Rightarrow> ActivityType \<Rightarrow> string \<Rightarrow>
     jsstr \<Rightarrow> jsstr \<Rightarrow> (string \<times> Contributor) list" where
  "recordActivity env users user ty date title link =
     mapModify (ensureUser env users user) (login user)
       (\<lambda>entry. addActivity entry ty date (POINTS ty) title link)"

section \<open>Search results: pull requests and issues opened, pull requests merged\<close>

definition ORG :: string where
  "ORG = ''CircuitVerse''"

text \<open>The loop over the pull requests (and the issues) found by creation date.\<close>

fun recordOpened ::
  "Env \<Rightarrow> ActivityType \<Rightarrow> (string \<times> Contributor) list \<Rightarrow> GitHubSearchItem list \<Rightarrow>
     (string \<times> Contributor) list" where
  "recordOpened env ty users [] = users"
| "recordOpened env ty users (item # items) =
     (if isBotUser (Some (si_user item)) then recordOpened env ty users items
      else recordOpened env ty
             (recordActivity env users (si_user item) ty (si_created_at item)
                (Str (si_title item)) (Str (si_html_url item)))
             items)"

text \<open>
  The loop over the merged pull requests passes \<^verbatim>\<open>pr.closed_at!\<close> as the date.
  When the field is \<^verbatim>\<open>null\<close> or missing, \<open>addActivity\<close> fails on
  \<^verbatim>\<open>date.split\<close> and the run ends without writing anything.
\<close>

datatype RunError = TypeError

fun recordMerged ::
  "Env \<Rightarrow> (string \<times> Contributor) list \<Rightarrow> GitHubSearchItem list \<Rightarrow>
     RunError + (string \<times> Contributor) list" where
  "recordMerged env users [] = Inr users"
| "recordMerged env users (item # items) =
     (if isBotUser (Some (si_user item)) then recordMerged env users items
      else case si_closed_at item of
             Str date \<Rightarrow>
               recordMerged env
                 (recordActivity env users (si_user item) PR_merged date
                    (Str (si_title item)) (Str (si_html_url item)))
                 items
           | _ \<Rightarrow> Inl TypeError)"

section \<open>Reviews\<close>

definition reviewDedupKey :: "string \<Rightarrow> string \<Rightarrow> nat \<Rightarrow> string" where
  "reviewDedupKey reviewer repoName n = reviewer @ '':'' @ repoName @ '':'' @ showNat n"

definition reviewTitle :: "nat \<Rightarrow> string" where
  "reviewTitle n = ''Review on PR #'' @ showNat n"

definition reviewLink :: "string \<Rightarrow> nat \<Rightarrow> string" where
  "reviewLink repoName n = ''https://github.com/'' @ ORG @ ''/'' @ repoName @ ''/pull/'' @ showNat n"

text \<open>
  The body of the loop over the reviews of one pull request. The state is the
  \<open>reviewSeen\<close> set and the contributor map.
\<close>

definition processReview ::
  "Env \<Rightarrow> int \<Rightarrow> int \<Rightarrow> string \<Rightarrow> GitHubPR \<Rightarrow>
     string set \<times> (string \<times> Contributor) list \<Rightarrow> GitHubReview \<Rightarrow>
     string set \<times> (string \<times> Contributor) list" where
  "processReview env since now repoName pr st review =
     (let reviewSeen = fst st; users = snd st; reviewer = login (rv_user review) in
      if reviewer = [] then st
      else if endsWith reviewer ''[bot]'' then st
      else if truthy (user_type (rv_user review)) \<and> user_type (rv_user review) \<noteq> Str ''User''
      then st
      else if reviewer = login (pr_user pr) then st
      else if rv_state review \<notin> set [''APPROVED'', ''CHANGES_REQUESTED''] then st
      else if dateLess (parseDate env (rv_submitted_at review)) since
            \<or> dateGreater (parseDate env (rv_submitted_at review)) now
      then st
      else if reviewDedupKey reviewer repoName (pr_number pr) \<in> reviewSeen then st
      else (insert (reviewDedupKey reviewer repoName (pr_number pr)) reviewSeen,
            recordActivity env users (rv_user review) Review_submitted (rv_submitted_at review)
              (Str (reviewTitle (pr_number pr)))
              (Str (reviewLink repoName (pr_number pr)))))"

text \<open>
  One batch: \<^verbatim>\<open>Promise.all\<close> returns the reviews of the batch's pull requests in
  the order of the batch, and the results are processed one after the other.
\<close>

fun processBatch ::
  "Env \<Rightarrow> int \<Rightarrow> int \<Rightarrow> string \<Rightarrow>
     string set \<times> (string \<times> Contributor) list \<Rightarrow> (GitHubPR \<times> GitHubReview list) list \<Rightarrow>
     string set \<times> (string \<times> Contributor) list" where
  "processBatch env since now repoName st [] = st"
| "processBatch env since now repoName st ((pr, reviews) # results) =
     processBatch env since now repoName
       (foldl (processReview env since now repoName pr) st reviews) results"

definition BATCH_SIZE :: nat where
  "BATCH_SIZE = 5"

text \<open>
  \<open>fetchAllReviews\<close>, given for every repository of the organisation the pull
  requests that \<open>fetchRepoPRs\<close> returned, each with the reviews that
  \<open>fetchPRReviews\<close> returned for it (none when that request failed).
\<close>

fun processRepos ::
  "Env \<Rightarrow> int \<Rightarrow> int \<Rightarrow> string set \<times> (string \<times> Contributor) list \<Rightarrow>
     (string \<times> (GitHubPR \<times> GitHubReview list) list) list \<Rightarrow>
     string set \<times> (string \<times> Contributor) list" where
  "processRepos env since now st [] = st"
| "processRepos env since now st ((repoName, prs) # repos) =
     processRepos env since now
       (foldl (processBatch env since now repoName) st (chunk prs BATCH_SIZE)) repos"

definition fetchAllReviews ::
  "Env \<Rightarrow> (string \<times> Contributor) list \<Rightarrow> int \<Rightarrow> int \<Rightarrow>
     (string \<times> (GitHubPR \<times> GitHubReview list) list) list \<Rightarrow> (string \<times> Contributor) list" where
  "fetchAllReviews env users since now repos = snd (processRepos env since now ({}, users) repos)"

section \<open>Issue triage\<close>

definition automatedLabels :: "string list" where
  "automatedLabels =
     [''stale'', ''wontfix'', ''duplicate'', ''invalid'', ''dependencies'', ''security'',
      ''github_actions'']"

definition isAutomatedLabel :: "string \<Rightarrow> bool" where
  "isAutomatedLabel labelName =
     list_ex (\<lambda>auto. includesStr (toLowerCase labelName) (toLowerCase auto)) automatedLabels"

text \<open>
  The body of the loop over the events of one issue; \<open>issueNumber\<close> is the
  segment of the issue's URL.
\<close>

definition processEvent ::
  "Env \<Rightarrow> int \<Rightarrow> int \<Rightarrow> GitHubSearchItem \<Rightarrow> string \<Rightarrow>
     (string \<times> Contributor) list \<Rightarrow> GitHubIssueEvent \<Rightarrow> (string \<times> Contributor) list" where
  "processEvent env since now issue issueNumber users event =
     (if login (ev_actor event) = [] \<or> isBotUser (Some (ev_actor event)) then users
      else if dateLess (parseDate env (ev_created_at event)) since
            \<or> dateGreater (parseDate env (ev_created_at event)) now
      then users
      else
        let users' = ensureUser env users (ev_actor event);
            add = (\<lambda>ty title. mapModify users' (login (ev_actor event))
                     (\<lambda>entry. addActivity entry ty (ev_created_at event) (POINTS ty)
                        (Str title) (Str (si_html_url issue))))
        in
        if ev_event event = ''labeled'' then
          (case ev_label event of
             Some labelName \<Rightarrow>
               if labelName \<noteq> [] \<and> \<not> isAutomatedLabel labelName
               then add Issue_labeled (''Labeled issue #'' @ issueNumber @ '': '' @ labelName)
               else users'
           | None \<Rightarrow> users')
        else if ev_event event = ''assigned'' then
          (case ev_assignee event of
             Some assignee \<Rightarrow>
               if login (ev_actor event) \<noteq> assignee
               then add Issue_assigned (''Assigned issue #'' @ issueNumber @ '' to '' @ assignee)
               else users'
           | None \<Rightarrow> users')
        else if ev_event event = ''closed'' then
          (if login (ev_actor event) \<noteq> login (si_user issue)
           then add Issue_closed
                  (''Closed issue #'' @ issueNumber @ '': '' @
                   template (sanitizeTitle (Str (si_title issue))))
           else users')
        else users')"

text \<open>
  \<open>processIssueTriagingEvents\<close> for one issue, given the answer to its events
  request: \<open>None\<close> when the request was not answered with success.
\<close>

definition processIssueTriagingEvents ::
  "Env \<Rightarrow> (string \<times> Contributor) list \<Rightarrow> GitHubSearchItem \<Rightarrow> int \<Rightarrow> int \<Rightarrow>
     GitHubIssueEvent list option \<Rightarrow> (string \<times> Contributor) list" where
  "processIssueTriagingEvents env users issue since now response =
     (case urlPathParts env (si_html_url issue) of
        None \<Rightarrow> users
      | Some pathParts \<Rightarrow>
          if length pathParts < 4 \<or> pathParts ! 2 \<noteq> ''issues'' then users
          else
            let repoName = pathParts ! 1; issueNumber = pathParts ! 3 in
            if repoName = [] \<or> issueNumber = [] \<or> isNaNNumber env issueNumber then users
            else case response of
                   None \<Rightarrow> users
                 | Some events \<Rightarrow> foldl (processEvent env since now issue issueNumber) users events)"

text \<open>
  \<open>fetchIssueTriagingActivities\<close>, given the issues found by update date, each
  with the answer to its events request. The issues of a batch are requested
  together; the events of one issue are processed without interruption, one issue
  after the other in the order in which the answers arrive, which is the order
  of this list.
\<close>

fun fetchIssueTriagingActivities ::
  "Env \<Rightarrow> (string \<times> Contributor) list \<Rightarrow> int \<Rightarrow> int \<Rightarrow>
     (GitHubSearchItem \<times> GitHubIssueEvent list option) list \<Rightarrow> (string \<times> Contributor) list" where
  "fetchIssueTriagingActivities env users since now [] = users"
| "fetchIssueTriagingActivities env users since now ((issue, response) # rest) =
     fetchIssueTriagingActivities env
       (processIssueTriagingEvents env users issue since now response) since now rest"

section \<open>Incremental merge and the year snapshot\<close>

record ExistingYearData =
  ex_period :: string
  ex_updatedAt :: int
  ex_lastFetchedAt :: "int option"
  ex_entries :: "Contributor list"

text \<open>The user object created for an entry of the prior snapshot not seen in this run.\<close>

definition newUser :: "Contributor \<Rightarrow> Contributor" where
  "newUser entry =
     \<lparr>username = username entry, name = name entry,
      avatar_url = avatar_url entry, role = role entry,
      total_points = 0, activity_breakdown = [], daily_activity = [],
      raw_activities = []\<rparr>"

fun mergeEntries ::
  "(string \<times> Contributor) list \<Rightarrow> Contributor list \<Rightarrow> (string \<times> Contributor) list" where
  "mergeEntries users [] = users"
| "mergeEntries users (entry # entries) =
     mergeEntries
       (let users' =
          (if mapGet users (username entry) = None
           then mapSet users (username entry) (newUser entry)
           else users)
        in mapModify users' (username entry)
             (\<lambda>user. user\<lparr>raw_activities := raw_activities user @ raw_activities entry\<rparr>))
       entries"

definition mergeExistingActivities ::
  "(string \<times> Contributor) list \<Rightarrow> ExistingYearData option \<Rightarrow> (string \<times> Contributor) list" where
  "mergeExistingActivities users existing =
     (case existing of None \<Rightarrow> users | Some ex \<Rightarrow> mergeEntries users (ex_entries ex))"

section \<open>Derived periods and recent activities\<close>

text \<open>
  The snapshots as they are written. The constant fields \<^verbatim>\<open>hiddenRoles: []\<close> and
  \<^verbatim>\<open>topByActivity: {}\<close> are left out.
\<close>

record YearData =
  yd_period :: string
  yd_updatedAt :: int
  yd_lastFetchedAt :: int
  yd_startDate :: string
  yd_endDate :: string
  yd_entries :: "Contributor list"

record UserEntry =
  ue_username :: string
  ue_name :: jsstr
  ue_avatar_url :: jsstr
  ue_role :: string
  ue_total_points :: int
  ue_activity_breakdown :: "(ActivityType \<times> Bucket) list"
  ue_daily_activity :: "DailyActivity list"
  ue_activities :: "RawActivity list"

record PeriodData =
  pd_period :: string
  pd_updatedAt :: int
  pd_startDate :: string
  pd_endDate :: string
  pd_entries :: "UserEntry list"

text \<open>The three readings of the clock in \<open>derivePeriod\<close>.\<close>

record PeriodClock =
  pc_cutoff :: int
  pc_updated :: int
  pc_end :: int

text \<open>
  \<^verbatim>\<open>daily[day] ??= { date: day, count: 0, points: 0 }\<close> and the two additions. The
  buckets are kept in the order in which their days are first met; the statements
  about them below speak of the set of buckets only.
\<close>

fun bumpDaily ::
  "(string \<times> DailyActivity) list \<Rightarrow> string \<Rightarrow> int \<Rightarrow> (string \<times> DailyActivity) list" where
  "bumpDaily [] day p = [(day, \<lparr>da_date = day, da_count = 0 + 1, da_points = 0 + p\<rparr>)]"
| "bumpDaily ((k, d) # m) day p =
     (if day = k then (k, d\<lparr>da_count := da_count d + 1, da_points := da_points d + p\<rparr>) # m
      else (k, d) # bumpDaily m day p)"

fun periodLoop ::
  "RawActivity list \<Rightarrow> int \<times> (ActivityType \<times> Bucket) list \<times> (string \<times> DailyActivity) list
     \<Rightarrow> int \<times> (ActivityType \<times> Bucket) list \<times> (string \<times> DailyActivity) list" where
  "periodLoop [] st = st"
| "periodLoop (a # acts) (total_pts, breakdown, daily) =
     periodLoop acts
       (total_pts + ra_points a,
        bumpBucket breakdown (ra_type a) (ra_points a),
        bumpDaily daily (splitT0 (ra_occured_at a)) (ra_points a))"

text \<open>The callback of \<^verbatim>\<open>source.entries.map\<close>: \<open>None\<close> is its \<^verbatim>\<open>null\<close>.\<close>

definition periodEntry :: "Env \<Rightarrow> int \<Rightarrow> Contributor \<Rightarrow> UserEntry option" where
  "periodEntry env cutoff entry =
     (let acts = filter (\<lambda>a. dateGeq (parseDate env (ra_occured_at a)) cutoff)
                   (raw_activities entry)
      in if length acts = 0 then None
         else
           let st = periodLoop acts (0, [], []) in
           Some \<lparr>ue_username = username entry,
                 ue_name = name entry,
                 ue_avatar_url = avatar_url entry,
                 ue_role = role entry,
                 ue_total_points = fst st,
                 ue_activity_breakdown = fst (snd st),
                 ue_daily_activity = map snd (snd (snd st)),
                 ue_activities = acts\<rparr>)"

definition derivePeriod :: "Env \<Rightarrow> PeriodClock \<Rightarrow> YearData \<Rightarrow> int \<Rightarrow> string \<Rightarrow> PeriodData" where
  "derivePeriod env clock source days period =
     (let cutoff = daysAgo env (pc_cutoff clock) days;
          entries =
            sortBy (\<lambda>a b. ue_total_points b - ue_total_points a)
              (List.map_filter (periodEntry env cutoff) (yd_entries source))
      in \<lparr>pd_period = period,
          pd_updatedAt = pc_updated clock,
          pd_startDate = isoDate env cutoff,
          pd_endDate = isoDate env (pc_end clock),
          pd_entries = entries\<rparr>)"

record RecentActivityItem =
  ri_username :: string
  ri_name :: jsstr
  ri_title :: jsstr
  ri_link :: jsstr
  ri_avatar_url :: jsstr
  ri_points :: int

record RecentData =
  rd_updatedAt :: int
  rd_groups :: "(string \<times> RecentActivityItem list) list"

text \<open>\<^verbatim>\<open>groups.set(day, groups.get(day) ?? []); groups.get(day)!.push(item)\<close>.\<close>

fun pushGroup ::
  "(string \<times> RecentActivityItem list) list \<Rightarrow> string \<Rightarrow> RecentActivityItem \<Rightarrow>
     (string \<times> RecentActivityItem list) list" where
  "pushGroup [] day item = [(day, [] @ [item])]"
| "pushGroup ((k, items) # groups) day item =
     (if day = k then (k, items @ [item]) # groups else (k, items) # pushGroup groups day item)"

definition recentStep ::
  "Env \<Rightarrow> int \<Rightarrow> Contributor \<Rightarrow> (string \<times> RecentActivityItem list) list \<Rightarrow> RawActivity \<Rightarrow>
     (string \<times> RecentActivityItem list) list" where
  "recentStep env cutoff entry groups act =
     (let day = splitT0 (ra_occured_at act) in
      if dateLess (parseDate env day) cutoff then groups
      else pushGroup groups day
             \<lparr>ri_username = username entry,
              ri_name = name entry,
              ri_title = nullish (ra_title act) Null,
              ri_link = nullish (ra_link act) Null,
              ri_avatar_url = avatar_url entry,
              ri_points = ra_points act\<rparr>)"

definition generateRecentActivities :: "Env \<Rightarrow> int \<Rightarrow> int \<Rightarrow> YearData \<Rightarrow> int \<Rightarrow> RecentData" where
  "generateRecentActivities env atCutoff atUpdated source days =
     \<lparr>rd_updatedAt = atUpdated,
      rd_groups =
        foldl (\<lambda>groups entry.
                 foldl (recentStep env (daysAgo env atCutoff days) entry) groups (raw_activities entry))
          [] (yd_entries source)\<rparr>"

section \<open>The run\<close>

text \<open>What the platform answered to the requests of one run.\<close>

record Fetched =
  prsOpened :: "GitHubSearchItem list"
  prsMerged :: "GitHubSearchItem list"
  issuesOpened :: "GitHubSearchItem list"
  repoReviews :: "(string \<times> (GitHubPR \<times> GitHubReview list) list) list"
  updatedIssues :: "(GitHubSearchItem \<times> GitHubIssueEvent list option) list"

text \<open>
  The readings of the wall clock during one run, in the order of the source:
  \<^verbatim>\<open>const now = new Date()\<close> at the start, the reading inside \<^verbatim>\<open>daysAgo(365)\<close>
  of a full fetch, the one for \<open>displaySince\<close>, the two \<^verbatim>\<open>Date.now()\<close> of the year
  snapshot, and those of the derived files.
\<close>

record Clock =
  atStart :: int
  atFullSince :: int
  atDisplaySince :: int
  atUpdated :: int
  atCursor :: int
  weekClock :: PeriodClock
  monthClock :: PeriodClock
  atRecentCutoff :: int
  atRecentUpdated :: int

record Outputs =
  out_year :: YearData
  out_week :: PeriodData
  out_month :: PeriodData
  out_recent :: RecentData

definition isIncremental :: "ExistingYearData option \<Rightarrow> bool" where
  "isIncremental existing =
     (case existing of None \<Rightarrow> False | Some ex \<Rightarrow> ex_lastFetchedAt ex \<noteq> None)"

text \<open>
  The start of the fetch window. \<^verbatim>\<open>isIncremental && existing?.lastFetchedAt\<close>
  is falsy for the cursor 0 as well.
\<close>

definition fetchSince :: "Env \<Rightarrow> Clock \<Rightarrow> ExistingYearData option \<Rightarrow> int" where
  "fetchSince env clock existing =
     (case existing of
        None \<Rightarrow> daysAgo env (atFullSince clock) 365
      | Some ex \<Rightarrow>
          (case ex_lastFetchedAt ex of
             None \<Rightarrow> daysAgo env (atFullSince clock) 365
           | Some t \<Rightarrow> if t \<noteq> 0 then t else daysAgo env (atFullSince clock) 365))"

text \<open>The contributor map after all fetching, merging and recomputing.\<close>

definition collectUsers ::
  "Env \<Rightarrow> Clock \<Rightarrow> ExistingYearData option \<Rightarrow> Fetched \<Rightarrow>
     RunError + (string \<times> Contributor) list" where
  "collectUsers env clock existing fetched =
     (let now = atStart clock;
          since = fetchSince env clock existing;
          users1 = recordOpened env PR_opened [] (prsOpened fetched)
      in case recordMerged env users1 (prsMerged fetched) of
           Inl e \<Rightarrow> Inl e
         | Inr users2 \<Rightarrow>
             let users3 = recordOpened env Issue_opened users2 (issuesOpened fetched);
                 users4 = fetchAllReviews env users3 since now (repoReviews fetched);
                 users5 = fetchIssueTriagingActivities env users4 since now (updatedIssues fetched);
                 users6 = (if isIncremental existing
                           then mergeExistingActivities users5 existing else users5)
             in Inr (deduplicateAndRecalculate (localeCompare env) users6))"

definition yearEntries :: "(string \<times> Contributor) list \<Rightarrow> Contributor list" where
  "yearEntries users =
     sortBy (\<lambda>a b. total_points b - total_points a)
       (filter (\<lambda>u. total_points u > 0) (map snd users))"

text \<open>The object \<open>yearData\<close> that is written to \<^verbatim>\<open>year.json\<close>.\<close>

definition yearDataOf :: "Env \<Rightarrow> Clock \<Rightarrow> (string \<times> Contributor) list \<Rightarrow> YearData" where
  "yearDataOf env clock users =
     \<lparr>yd_period = ''year'',
      yd_updatedAt = atUpdated clock,
      yd_lastFetchedAt = atCursor clock,
      yd_startDate = isoDate env (daysAgo env (atDisplaySince clock) 365),
      yd_endDate = isoDate env (atStart clock),
      yd_entries = yearEntries users\<rparr>"

definition generateYear ::
  "Env \<Rightarrow> Clock \<Rightarrow> ExistingYearData option \<Rightarrow> Fetched \<Rightarrow> RunError + Outputs" where
  "generateYear env clock existing fetched =
     (case collectUsers env clock existing fetched of
        Inl e \<Rightarrow> Inl e
      | Inr users \<Rightarrow>
          let yearData = yearDataOf env clock users
          in Inr \<lparr>out_year = yearData,
                  out_week = derivePeriod env (weekClock clock) yearData 7 ''week'',
                  out_month = derivePeriod env (monthClock clock) yearData 30 ''month'',
                  out_recent =
                    generateRecentActivities env (atRecentCutoff clock) (atRecentUpdated clock)
                      yearData 14\<rparr>)"

section \<open>The people route: merging the snapshot files when serving\<close>

text \<open>The types the route declares for what it reads; here every string is present.\<close>

record Activity =
  act_type :: string
  act_title :: string
  act_occured_at :: string
  act_link :: string
  act_points :: int

record ContributorEntry =
  ce_username :: string
  ce_name :: jsstr
  ce_avatar_url :: string
  ce_role :: string
  ce_total_points :: int
  ce_activity_breakdown :: "(string \<times> Bucket) list"
  ce_daily_activity :: "DailyActivity list"
  ce_activities :: "Activity list option"

record LeaderboardData =
  ld_period :: string
  ld_updatedAt :: int
  ld_entries :: "ContributorEntry list"

definition isBot :: "string \<Rightarrow> bool" where
  "isBot entryUsername =
     (let username = toLowerCase entryUsername in
      endsWith username ''[bot]'' \<or>
      endsWith username ''-bot'' \<or>
      endsWith username ''_bot'' \<or>
      username = ''dependabot'' \<or>
      username = ''renovate'' \<or>
      username = ''github-actions'' \<or>
      startsWith username ''renovate['' \<or>
      startsWith username ''dependabot['')"

definition activityIdentifier :: "Activity \<Rightarrow> string" where
  "activityIdentifier activity =
     (if act_link activity \<noteq> []
      then act_type activity @ ''-'' @ act_link activity
      else act_type activity @ ''-'' @ act_title activity @ ''-'' @ act_occured_at activity)"

text \<open>The loop over \<^verbatim>\<open>[...existingActivities, ...newActivities]\<close>.\<close>

fun unionLoop :: "string set \<Rightarrow> Activity list \<Rightarrow> Activity list \<Rightarrow> Activity list" where
  "unionLoop seen combined [] = combined"
| "unionLoop seen combined (activity # rest) =
     (if activityIdentifier activity \<notin> seen
      then unionLoop (insert (activityIdentifier activity) seen) (combined @ [activity]) rest
      else unionLoop seen combined rest)"

text \<open>
  The comparator of \<^verbatim>\<open>combined.sort\<close>, the difference of two \<^verbatim>\<open>getTime()\<close>; with
  an invalid date it is \<^verbatim>\<open>NaN\<close>, which \<^verbatim>\<open>sort\<close> reads as 0.
\<close>

definition byTimeDesc :: "Env \<Rightarrow> Activity \<Rightarrow> Activity \<Rightarrow> int" where
  "byTimeDesc env a b =
     (case (parseDate env (act_occured_at b), parseDate env (act_occured_at a)) of
        (Some tb, Some ta) \<Rightarrow> tb - ta
      | _ \<Rightarrow> 0)"

definition expectedCount :: "ContributorEntry \<Rightarrow> int" where
  "expectedCount entry = foldl (\<lambda>sum v. sum + b_count v) 0 (map snd (ce_activity_breakdown entry))"

text \<open>\<^verbatim>\<open>new Date(0).toISOString()\<close>.\<close>

definition epochISO :: string where
  "epochISO = ''1970-01-01T00:00:00.000Z''"

definition placeholder :: "string \<Rightarrow> Bucket \<Rightarrow> Activity" where
  "placeholder ty info =
     \<lparr>act_type = ty, act_title = ty @ '' contribution'', act_occured_at = epochISO,
      act_link = [], act_points = b_points info\<rparr>"

text \<open>The loop over \<^verbatim>\<open>Object.entries(entry.activity_breakdown)\<close> that pushes placeholders.\<close>

fun addPlaceholders :: "Activity list \<Rightarrow> (string \<times> Bucket) list \<Rightarrow> Activity list" where
  "addPlaceholders combined [] = combined"
| "addPlaceholders combined ((ty, info) # rest) =
     (let existingCount = int (length (filter (\<lambda>a. act_type a = ty) combined));
          missing = b_count info - existingCount
      in addPlaceholders (combined @ replicate (nat missing) (placeholder ty info)) rest)"

text \<open>The list \<open>combined\<close> after the union and the sort.\<close>

definition unionActivities :: "Env \<Rightarrow> ContributorEntry \<Rightarrow> ContributorEntry \<Rightarrow> Activity list" where
  "unionActivities env existing entry =
     (let existingActivities = (case ce_activities existing of None \<Rightarrow> [] | Some acts \<Rightarrow> acts);
          newActivities = (case ce_activities entry of None \<Rightarrow> [] | Some acts \<Rightarrow> acts)
      in sortBy (byTimeDesc env) (unionLoop {} [] (existingActivities @ newActivities)))"

text \<open>The list \<open>combined\<close> after the placeholders, before the final \<^verbatim>\<open>slice(0, 15)\<close>.\<close>

definition combinedActivities :: "Env \<Rightarrow> ContributorEntry \<Rightarrow> ContributorEntry \<Rightarrow> Activity list" where
  "combinedActivities env existing entry =
     (let combined = unionActivities env existing entry
      in if int (length combined) < expectedCount entry
         then addPlaceholders combined (ce_activity_breakdown entry)
         else combined)"

text \<open>
  \<^verbatim>\<open>{ ...existing, ...entry, activities: combined.slice(0, 15) }\<close>: every field of
  the declared type is present in \<open>entry\<close>, so the second spread decides them.
\<close>

definition mergedEntry :: "Env \<Rightarrow> ContributorEntry \<Rightarrow> ContributorEntry \<Rightarrow> ContributorEntry" where
  "mergedEntry env existing entry =
     entry\<lparr>ce_activities := Some (take 15 (combinedActivities env existing entry))\<rparr>"

definition mergeStep ::
  "Env \<Rightarrow> (string \<times> ContributorEntry) list \<Rightarrow> ContributorEntry \<Rightarrow>
     (string \<times> ContributorEntry) list" where
  "mergeStep env allContributors entry =
     (if isBot (ce_username entry) then allContributors
      else case mapGet allContributors (ce_username entry) of
             None \<Rightarrow>
               mapSet allContributors (ce_username entry)
                 (entry\<lparr>ce_activities :=
                    Some (case ce_activities entry of None \<Rightarrow> [] | Some acts \<Rightarrow> acts)\<rparr>)
           | Some existing \<Rightarrow>
               mapSet allContributors (ce_username entry) (mergedEntry env existing entry))"

text \<open>One file of the directory; \<open>None\<close> is a file that cannot be read or parsed.\<close>

definition mergeFile ::
  "Env \<Rightarrow> (string \<times> ContributorEntry) list \<times> int \<Rightarrow> LeaderboardData option \<Rightarrow>
     (string \<times> ContributorEntry) list \<times> int" where
  "mergeFile env st file =
     (case file of
        None \<Rightarrow> st
      | Some data \<Rightarrow>
          (foldl (mergeStep env) (fst st) (ld_entries data),
           if ld_updatedAt data > snd st then ld_updatedAt data else snd st))"

record Served =
  sv_updatedAt :: int
  sv_people :: "ContributorEntry list"

text \<open>
  The handler, given the snapshot files of the directory in the order of the
  listing (all \<^verbatim>\<open>.json\<close> files but \<^verbatim>\<open>recent-activities.json\<close>); \<open>None\<close> is a
  directory that cannot be listed, answered with status 500.
\<close>

definition GET :: "Env \<Rightarrow> LeaderboardData option list option \<Rightarrow> string + Served" where
  "GET env dir =
     (case dir of
        None \<Rightarrow> Inl ''Failed to fetch people''
      | Some files \<Rightarrow>
          let st = foldl (mergeFile env) ([], 0) files in
          Inr \<lparr>sv_updatedAt = snd st,
               sv_people =
                 sortBy (\<lambda>a b. ce_total_points b - ce_total_points a) (map snd (fst st))\<rparr>)"

section \<open>Notions used in the statements, and example inputs\<close>

text \<open>
  A prior year snapshot as a run writes it: the usernames are distinct (the
  entries come from a map keyed by username), no two raw activities of an entry
  have the same deduplication key, and \<open>total_points\<close> is the sum of the raw
  points.
\<close>

definition snapshotConsistent :: "Contributor list \<Rightarrow> bool" where
  "snapshotConsistent entries =
     (distinct (map username entries) \<and>
      (\<forall>e \<in> set entries.
         distinct (map dedupKey (raw_activities e)) \<and>
         total_points e = sum_list (map ra_points (raw_activities e))))"

definition aliceLog :: "RawActivity list" where
  "aliceLog =
     [\<lparr>ra_type = PR_opened, ra_occured_at = ''2024-03-01T10:00:00Z'', ra_title = Str ''Fix'',
        ra_link = Str ''https://github.com/CircuitVerse/x/pull/1'', ra_points = 2\<rparr>,
      \<lparr>ra_type = PR_opened, ra_occured_at = ''2024-03-01T10:00:00Z'', ra_title = Str ''Fix'',
        ra_link = Str ''https://github.com/CircuitVerse/x/pull/1'', ra_points = 2\<rparr>,
      \<lparr>ra_type = PR_merged, ra_occured_at = ''2024-03-02T09:00:00Z'', ra_title = Str ''Fix'',
        ra_link = Str ''https://github.com/CircuitVerse/x/pull/1'', ra_points = 5\<rparr>]"

definition aliceUsers :: "(string \<times> Contributor) list" where
  "aliceUsers =
     [(''alice'', \<lparr>username = ''alice'', name = Null, avatar_url = Null, role = ''Contributor'',
        total_points = 9, activity_breakdown = [], daily_activity = [], raw_activities = aliceLog\<rparr>)]"

definition aliceAfter :: Contributor where
  "aliceAfter =
     \<lparr>username = ''alice'', name = Null, avatar_url = Null, role = ''Contributor'',
      total_points = 7,
      activity_breakdown =
        [(PR_opened, \<lparr>b_count = 1, b_points = 2\<rparr>), (PR_merged, \<lparr>b_count = 1, b_points = 5\<rparr>)],
      daily_activity =
        [\<lparr>da_date = ''2024-03-02'', da_count = 1, da_points = 5\<rparr>,
         \<lparr>da_date = ''2024-03-01'', da_count = 1, da_points = 2\<rparr>],
      raw_activities = tl aliceLog\<rparr>"

definition priorSnapshot :: ExistingYearData where
  "priorSnapshot =
     \<lparr>ex_period = ''year'', ex_updatedAt = 1709400000000, ex_lastFetchedAt = Some 1709400000000,
      ex_entries = [aliceAfter]\<rparr>"

text \<open>
  The number of review activities that a reviewer's log holds for one pull request
  of one repository, found by the link that \<open>fetchAllReviews\<close> gives them.
\<close>

definition reviewCount :: "(string \<times> Contributor) list \<Rightarrow> string \<Rightarrow> string \<Rightarrow> nat \<Rightarrow> nat" where
  "reviewCount users reviewer repoName n =
     (case mapGet users reviewer of
        None \<Rightarrow> 0
      | Some u \<Rightarrow>
          length (filter (\<lambda>a. ra_type a = Review_submitted \<and> ra_link a = Str (reviewLink repoName n))
                    (raw_activities u)))"

text \<open>
  The invariant of the review loops, relative to the map \<open>users0\<close> they started
  from: no count has grown by more than one, and a count whose key is not in
  \<open>reviewSeen\<close> has not grown.
\<close>

definition reviewInv ::
  "(string \<times> Contributor) list \<Rightarrow> string set \<times> (string \<times> Contributor) list \<Rightarrow> bool" where
  "reviewInv users0 st =
     (\<forall>r repo n.
        reviewCount (snd st) r repo n \<le> reviewCount users0 r repo n + 1 \<and>
        (reviewDedupKey r repo n \<notin> fst st \<longrightarrow>
           reviewCount (snd st) r repo n = reviewCount users0 r repo n))"

text \<open>
  The local calendar of the examples, built as the language defines it from the
  offset of a time zone: \<open>DateFromTime\<close> is the day of the month of a local time
  value, counted from the days since 0000-03-01; \<open>getDate\<close> reads it off the
  local time \<open>t + offsetAt t\<close>; \<open>setDate\<close> moves the local time by whole days and
  goes back to a time value with the offset \<open>offsetOfLocal\<close> that holds at the
  new local time.
\<close>

definition msPerDay :: int where
  "msPerDay = 86400000"

definition DateFromTime :: "int \<Rightarrow> int" where
  "DateFromTime t =
     (let z = t div msPerDay + 719468;
          doe = z mod 146097;
          yoe = (doe - doe div 1460 + doe div 36524 - doe div 146096) div 365;
          doy = doe - (365 * yoe + yoe div 4 - yoe div 100);
          mp = (5 * doy + 2) div 153
      in doy - (153 * mp + 2) div 5 + 1)"

definition zoneGetDate :: "(int \<Rightarrow> int) \<Rightarrow> int \<Rightarrow> int" where
  "zoneGetDate offsetAt t = DateFromTime (t + offsetAt t)"

definition zoneSetDate :: "(int \<Rightarrow> int) \<Rightarrow> (int \<Rightarrow> int) \<Rightarrow> int \<Rightarrow> int \<Rightarrow> int" where
  "zoneSetDate offsetAt offsetOfLocal t k =
     (let localTime = t + offsetAt t;
          newDate = localTime + (k - DateFromTime localTime) * msPerDay
      in newDate - offsetOfLocal newDate)"

text \<open>
  An environment for the examples: dates are parsed by a table, the local time
  zone is UTC.
\<close>

definition exampleDates :: "(string \<times> int) list" where
  "exampleDates =
     [(''1970-01-01T00:00:00.000Z'', 0),
      (''2024-02-01T08:00:00Z'', 1706774400000),
      (''2024-03-01T10:00:00Z'', 1709287200000),
      (''2024-03-02T09:00:00Z'', 1709370000000),
      (''2024-03-05T12:00:00Z'', 1709640000000),
      (''2024-03-10T01:00:00Z'', 1710032400000),
      (''2024-04-01T00:00:00Z'', 1711929600000),
      (''2024-02-01'', 1706745600000),
      (''2024-03-01'', 1709251200000),
      (''2024-03-02'', 1709337600000),
      (''2024-03-05'', 1709596800000),
      (''2024-03-10'', 1710028800000)]"

definition examplePaths :: "(string \<times> string list) list" where
  "examplePaths =
     [(''https://github.com/CircuitVerse/x/issues/12'', [''CircuitVerse'', ''x'', ''issues'', ''12''])]"

definition exampleEnv :: Env where
  "exampleEnv =
     \<lparr>coreTeamMembers = [''Alice''],
      alumniMembers = [],
      localeCompare = codeUnitCompare,
      parseDate = mapGet exampleDates,
      isoDate = (\<lambda>t. ''''),
      urlPathParts = mapGet examplePaths,
      isNaNNumber = (\<lambda>s. s \<noteq> ''12''),
      getDate = zoneGetDate (\<lambda>t. 0),
      setDate = zoneSetDate (\<lambda>t. 0) (\<lambda>t. 0)\<rparr>"

text \<open>
  The same environment in a zone four hours behind UTC that goes back to five
  hours behind on 2024-11-03 at 06:00 UTC, which is 02:00 of its local time.
\<close>

definition easternOffsetAt :: "int \<Rightarrow> int" where
  "easternOffsetAt t = (if t < 1730613600000 then - 14400000 else - 18000000)"

definition easternOffsetOfLocal :: "int \<Rightarrow> int" where
  "easternOffsetOfLocal t = (if t < 1730599200000 then - 14400000 else - 18000000)"

definition easternEnv :: Env where
  "easternEnv =
     exampleEnv\<lparr>getDate := zoneGetDate easternOffsetAt,
                setDate := zoneSetDate easternOffsetAt easternOffsetOfLocal\<rparr>"

definition human :: "string \<Rightarrow> GitHubUser" where
  "human l = \<lparr>login = l, user_type = Str ''User'', user_name = Undefined, user_avatar_url = Undefined\<rparr>"

text \<open>Two qualifying reviews by the same reviewer on pull request 7 of repository x.\<close>

definition examplePR7 :: GitHubPR where
  "examplePR7 = \<lparr>pr_number = 7, pr_user = human ''alice''\<rparr>"

definition ritaApproved :: GitHubReview where
  "ritaApproved =
     \<lparr>rv_user = human ''rita'', rv_state = ''APPROVED'', rv_submitted_at = ''2024-03-05T12:00:00Z''\<rparr>"

definition exampleReviews :: "(string \<times> (GitHubPR \<times> GitHubReview list) list) list" where
  "exampleReviews =
     [(''x'',
       [(examplePR7,
         [\<lparr>rv_user = human ''rita'', rv_state = ''CHANGES_REQUESTED'',
            rv_submitted_at = ''2024-03-02T09:00:00Z''\<rparr>,
          ritaApproved])])]"

text \<open>The state of the review loops after a first review by rita on that pull request.\<close>

definition ritaSeen :: "string set \<times> (string \<times> Contributor) list" where
  "ritaSeen =
     processReview exampleEnv 1709251200000 1710028800000 ''x'' examplePR7 ({}, [])
       \<lparr>rv_user = human ''rita'', rv_state = ''CHANGES_REQUESTED'',
         rv_submitted_at = ''2024-03-02T09:00:00Z''\<rparr>"

text \<open>The points and the raw activities that a contributor map holds for a username.\<close>

definition pointsOf :: "(string \<times> Contributor) list \<Rightarrow> string \<Rightarrow> int" where
  "pointsOf users k = (case mapGet users k of None \<Rightarrow> 0 | Some u \<Rightarrow> total_points u)"

definition activitiesOf :: "(string \<times> Contributor) list \<Rightarrow> string \<Rightarrow> RawActivity list" where
  "activitiesOf users k = (case mapGet users k of None \<Rightarrow> [] | Some u \<Rightarrow> raw_activities u)"

definition scoreboard :: "(string \<times> Contributor) list \<Rightarrow> (string \<times> int \<times> ActivityType list) list" where
  "scoreboard users = map (\<lambda>(k, u). (k, total_points u, map ra_type (raw_activities u))) users"

text \<open>
  A triage event reaches the \<^verbatim>\<open>switch\<close> when its actor is no bot and its date
  is neither before \<open>since\<close> nor after \<open>now\<close>.
\<close>

definition inScope :: "Env \<Rightarrow> int \<Rightarrow> int \<Rightarrow> GitHubIssueEvent \<Rightarrow> bool" where
  "inScope env since now event =
     (\<not> isBotUser (Some (ev_actor event)) \<and>
      \<not> dateLess (parseDate env (ev_created_at event)) since \<and>
      \<not> dateGreater (parseDate env (ev_created_at event)) now)"

text \<open>
  A label that is scored: present, not empty, and in lower case containing none
  of the seven words of the code's list.
\<close>

definition labelScored :: "string option \<Rightarrow> bool" where
  "labelScored label =
     (case label of
        None \<Rightarrow> False
      | Some labelName \<Rightarrow>
          labelName \<noteq> [] \<and>
          list_all (\<lambda>auto. \<not> includesStr (toLowerCase labelName) auto)
            [''stale'', ''wontfix'', ''duplicate'', ''invalid'', ''dependencies'', ''security'',
             ''github_actions''])"

definition exampleIssue :: GitHubSearchItem where
  "exampleIssue =
     \<lparr>si_user = human ''alice'', si_title = ''Crash: on [load]'',
      si_html_url = ''https://github.com/CircuitVerse/x/issues/12'',
      si_created_at = ''2024-03-01T10:00:00Z'', si_closed_at = Null\<rparr>"

definition labeledEvent :: "string \<Rightarrow> GitHubIssueEvent" where
  "labeledEvent labelName =
     \<lparr>ev_event = ''labeled'', ev_actor = human ''maya'', ev_created_at = ''2024-03-05T12:00:00Z'',
      ev_label = Some labelName, ev_assignee = None\<rparr>"

text \<open>
  The events of a period entry come from the window of a contributor: those raw
  activities whose parsed date is not before the cutoff.
\<close>

definition windowActs :: "Env \<Rightarrow> int \<Rightarrow> Contributor \<Rightarrow> RawActivity list" where
  "windowActs env cutoff c =
     filter (\<lambda>a. dateGeq (parseDate env (ra_occured_at a)) cutoff) (raw_activities c)"

text \<open>What a list of activities gives for one label and for one day: the number of them and the sum of their points.\<close>

definition labelBucket :: "RawActivity list \<Rightarrow> ActivityType \<Rightarrow> Bucket" where
  "labelBucket acts ty =
     \<lparr>b_count = int (length (filter (\<lambda>a. ra_type a = ty) acts)),
      b_points = sum_list (map ra_points (filter (\<lambda>a. ra_type a = ty) acts))\<rparr>"

definition dayBucket :: "RawActivity list \<Rightarrow> string \<Rightarrow> DailyActivity" where
  "dayBucket acts day =
     \<lparr>da_date = day,
      da_count = int (length (filter (\<lambda>a. splitT0 (ra_occured_at a) = day) acts)),
      da_points = sum_list (map ra_points (filter (\<lambda>a. splitT0 (ra_occured_at a) = day) acts))\<rparr>"

text \<open>
  The derived fields of a period entry are recomputed from a list of activities:
  the total is the sum of their points, the breakdown has one bucket for each of
  their labels, and the days one entry for each of their days.
\<close>

definition recomputedFrom :: "RawActivity list \<Rightarrow> UserEntry \<Rightarrow> bool" where
  "recomputedFrom acts e =
     (ue_total_points e = sum_list (map ra_points acts) \<and>
      distinct (map fst (ue_activity_breakdown e)) \<and>
      set (ue_activity_breakdown e) = (\<lambda>ty. (ty, labelBucket acts ty)) ` ra_type ` set acts \<and>
      distinct (map da_date (ue_daily_activity e)) \<and>
      set (ue_daily_activity e) = dayBucket acts ` (\<lambda>a. splitT0 (ra_occured_at a)) ` set acts)"

text \<open>
  A period snapshot for a cutoff, derived from the entries of the year snapshot:
  every event of every entry is in the window; the entries are, each once, the
  contributors with an event in the window, with exactly these events; the derived
  fields are recomputed from these events; the entries are in descending order of
  \<open>total_points\<close>.
\<close>

definition periodSnapshotOk :: "Env \<Rightarrow> int \<Rightarrow> Contributor list \<Rightarrow> UserEntry list \<Rightarrow> bool" where
  "periodSnapshotOk env cutoff source entries =
     ((\<forall>e \<in> set entries. \<forall>a \<in> set (ue_activities e).
          dateGeq (parseDate env (ra_occured_at a)) cutoff) \<and>
      mset (map (\<lambda>e. (ue_username e, ue_activities e)) entries) =
        mset (map (\<lambda>c. (username c, windowActs env cutoff c))
               (filter (\<lambda>c. windowActs env cutoff c \<noteq> []) source)) \<and>
      (\<forall>e \<in> set entries. recomputedFrom (ue_activities e) e) \<and>
      sorted_wrt (\<lambda>a b. ue_total_points a \<ge> ue_total_points b) entries)"

text \<open>Invariants of the grouping loops, for the proofs.\<close>

definition groupedBy :: "('a \<Rightarrow> 'k) \<Rightarrow> ('a \<Rightarrow> int) \<Rightarrow> 'a list \<Rightarrow> ('k \<times> Bucket) list \<Rightarrow> bool" where
  "groupedBy key pts xs m =
     (distinct (map fst m) \<and>
      set m = (\<lambda>k. (k, \<lparr>b_count = int (length (filter (\<lambda>a. key a = k) xs)),
                         b_points = sum_list (map pts (filter (\<lambda>a. key a = k) xs))\<rparr>)) ` key ` set xs)"

definition dayBuckets :: "(string \<times> DailyActivity) list \<Rightarrow> (string \<times> Bucket) list" where
  "dayBuckets m = map (\<lambda>e. (fst e, \<lparr>b_count = da_count (snd e), b_points = da_points (snd e)\<rparr>)) m"

definition datedByKey :: "(string \<times> DailyActivity) list \<Rightarrow> bool" where
  "datedByKey m = list_all (\<lambda>e. da_date (snd e) = fst e) m"

definition periodInv ::
  "RawActivity list \<Rightarrow> int \<times> (ActivityType \<times> Bucket) list \<times> (string \<times> DailyActivity) list \<Rightarrow> bool" where
  "periodInv acts st =
     (fst st = sum_list (map ra_points acts) \<and>
      groupedBy ra_type ra_points acts (fst (snd st)) \<and>
      groupedBy (\<lambda>a. splitT0 (ra_occured_at a)) ra_points acts (dayBuckets (snd (snd st))) \<and>
      datedByKey (snd (snd st)))"

text \<open>
  An example run, started on 2024-03-10 at 00:00 UTC and written two hours later,
  without a prior snapshot. A pull request of alice is opened and merged, one is
  opened by an account of type Bot and one, in February, by the account
  deploy-bot of type User; alice opens an issue, which maya labels; rita reviews
  the pull request twice, and sam reviews it while the run is under way.
\<close>

definition examplePR :: "string \<Rightarrow> jsstr \<Rightarrow> string \<Rightarrow> GitHubSearchItem" where
  "examplePR l ty created =
     \<lparr>si_user = \<lparr>login = l, user_type = ty, user_name = Undefined, user_avatar_url = Undefined\<rparr>,
      si_title = ''Fix: crash'', si_html_url = ''https://github.com/CircuitVerse/x/pull/7'',
      si_created_at = created, si_closed_at = Str ''2024-03-05T12:00:00Z''\<rparr>"

definition exampleFetched :: Fetched where
  "exampleFetched =
     \<lparr>prsOpened =
        [examplePR ''alice'' (Str ''User'') ''2024-03-01T10:00:00Z'',
         examplePR ''dependabot[bot]'' (Str ''Bot'') ''2024-03-02T09:00:00Z'',
         examplePR ''deploy-bot'' (Str ''User'') ''2024-02-01T08:00:00Z''],
      prsMerged = [examplePR ''alice'' (Str ''User'') ''2024-03-01T10:00:00Z''],
      issuesOpened = [exampleIssue],
      repoReviews =
        [(''x'',
          [(\<lparr>pr_number = 7, pr_user = human ''alice''\<rparr>,
            [\<lparr>rv_user = human ''rita'', rv_state = ''CHANGES_REQUESTED'',
               rv_submitted_at = ''2024-03-02T09:00:00Z''\<rparr>,
             \<lparr>rv_user = human ''rita'', rv_state = ''APPROVED'',
               rv_submitted_at = ''2024-03-05T12:00:00Z''\<rparr>,
             \<lparr>rv_user = human ''sam'', rv_state = ''APPROVED'',
               rv_submitted_at = ''2024-03-10T01:00:00Z''\<rparr>])])],
      updatedIssues = [(exampleIssue, Some [labeledEvent ''bug''])]\<rparr>"

definition examplePeriodClock :: PeriodClock where
  "examplePeriodClock =
     \<lparr>pc_cutoff = 1710036000000, pc_updated = 1710036000000, pc_end = 1710036000000\<rparr>"

definition exampleClock :: Clock where
  "exampleClock =
     \<lparr>atStart = 1710028800000, atFullSince = 1710028800000, atDisplaySince = 1710036000000,
      atUpdated = 1710036000000, atCursor = 1710036000000,
      weekClock = examplePeriodClock, monthClock = examplePeriodClock,
      atRecentCutoff = 1710036000000, atRecentUpdated = 1710036000000\<rparr>"

definition exampleRun :: "RunError + Outputs" where
  "exampleRun = generateYear exampleEnv exampleClock None exampleFetched"

definition exampleOut :: Outputs where
  "exampleOut = projr exampleRun"

text \<open>The usernames and totals of a snapshot, to read the examples.\<close>

definition yearBoard :: "YearData \<Rightarrow> (string \<times> int) list" where
  "yearBoard y = map (\<lambda>c. (username c, total_points c)) (yd_entries y)"

definition periodBoard :: "PeriodData \<Rightarrow> (string \<times> int) list" where
  "periodBoard p = map (\<lambda>e. (ue_username e, ue_total_points e)) (pd_entries p)"

text \<open>
  The prior snapshot as \<open>loadExistingYearData\<close> reads it back from the file that
  a run wrote.
\<close>

definition reload :: "YearData \<Rightarrow> ExistingYearData" where
  "reload y =
     \<lparr>ex_period = yd_period y, ex_updatedAt = yd_updatedAt y,
      ex_lastFetchedAt = Some (yd_lastFetchedAt y), ex_entries = yd_entries y\<rparr>"

text \<open>
  The run of the next day. The platform answers nothing new, and lists the three
  reviews of pull request 7 again.
\<close>

definition nextFetched :: Fetched where
  "nextFetched =
     \<lparr>prsOpened = [], prsMerged = [], issuesOpened = [],
      repoReviews = repoReviews exampleFetched, updatedIssues = []\<rparr>"

definition nextPeriodClock :: PeriodClock where
  "nextPeriodClock =
     \<lparr>pc_cutoff = 1710122400000, pc_updated = 1710122400000, pc_end = 1710122400000\<rparr>"

definition nextClock :: Clock where
  "nextClock =
     \<lparr>atStart = 1710115200000, atFullSince = 1710115200000, atDisplaySince = 1710122400000,
      atUpdated = 1710122400000, atCursor = 1710122400000,
      weekClock = nextPeriodClock, monthClock = nextPeriodClock,
      atRecentCutoff = 1710122400000, atRecentUpdated = 1710122400000\<rparr>"

definition runBoard :: "RunError + Outputs \<Rightarrow> (string \<times> int) list" where
  "runBoard r = (case r of Inl e \<Rightarrow> [] | Inr out \<Rightarrow> yearBoard (out_year out))"

text \<open>The fields of a served entry other than its username and its activities.\<close>

definition baseFields ::
  "ContributorEntry \<Rightarrow> jsstr \<times> string \<times> string \<times> int \<times> (string \<times> Bucket) list \<times> DailyActivity list" where
  "baseFields e =
     (ce_name e, ce_avatar_url e, ce_role e, ce_total_points e, ce_activity_breakdown e,
      ce_daily_activity e)"

text \<open>The entries of the files that could be read, in the order in which they are processed.\<close>

definition fileEntries :: "LeaderboardData option list \<Rightarrow> ContributorEntry list" where
  "fileEntries files = concat (map (\<lambda>f. case f of None \<Rightarrow> [] | Some d \<Rightarrow> ld_entries d) files)"

definition lastEntryOf :: "string \<Rightarrow> ContributorEntry list \<Rightarrow> ContributorEntry option" where
  "lastEntryOf u es =
     (if filter (\<lambda>e. ce_username e = u) es = [] then None
      else Some (last (filter (\<lambda>e. ce_username e = u) es)))"

definition firstEntryOf :: "string \<Rightarrow> ContributorEntry list \<Rightarrow> ContributorEntry option" where
  "firstEntryOf u es =
     (case filter (\<lambda>e. ce_username e = u) es of [] \<Rightarrow> None | x # xs \<Rightarrow> Some x)"

text \<open>The invariant of the merge loop over the entries processed so far.\<close>

definition mergeInv :: "ContributorEntry list \<Rightarrow> (string \<times> ContributorEntry) list \<Rightarrow> bool" where
  "mergeInv es allContributors =
     (distinct (map fst allContributors) \<and>
      (\<forall>k p. (k, p) \<in> set allContributors \<longrightarrow>
         ce_username p = k \<and> \<not> isBot k \<and>
         (\<exists>e. lastEntryOf k es = Some e \<and> baseFields p = baseFields e)))"

text \<open>The placeholders of a label among the activities of a served entry.\<close>

definition placeholdersIn :: "string \<Rightarrow> ContributorEntry \<Rightarrow> nat" where
  "placeholdersIn ty e =
     length (filter (\<lambda>a. act_type a = ty \<and> act_link a = [] \<and> act_occured_at a = epochISO)
               (case ce_activities e of None \<Rightarrow> [] | Some acts \<Rightarrow> acts))"

definition countOfType :: "string \<Rightarrow> Activity list \<Rightarrow> nat" where
  "countOfType ty acts = length (filter (\<lambda>a. act_type a = ty) acts)"

definition servedBoard :: "string + Served \<Rightarrow> (string \<times> int) list" where
  "servedBoard r =
     (case r of Inl e \<Rightarrow> [] | Inr served \<Rightarrow> map (\<lambda>p. (ce_username p, ce_total_points p)) (sv_people served))"

text \<open>
  Example files. The month file lists one issue that alice opened; the year file,
  read after it, declares three issues for her and carries no activity list.
\<close>

definition issueActivity :: Activity where
  "issueActivity =
     \<lparr>act_type = ''Issue opened'', act_title = ''Crash - on load'',
      act_occured_at = ''2024-03-01T10:00:00Z'',
      act_link = ''https://github.com/CircuitVerse/x/issues/12'', act_points = 1\<rparr>"

definition prActivity :: "nat \<Rightarrow> Activity" where
  "prActivity n =
     \<lparr>act_type = ''PR opened'', act_title = ''Fix - crash'',
      act_occured_at = ''2024-03-02T09:00:00Z'',
      act_link = ''https://github.com/CircuitVerse/x/pull/'' @ showNat n, act_points = 2\<rparr>"

definition monthAlice :: ContributorEntry where
  "monthAlice =
     \<lparr>ce_username = ''alice'', ce_name = Null, ce_avatar_url = ''a.png'', ce_role = ''Maintainer'',
      ce_total_points = 1,
      ce_activity_breakdown = [(''Issue opened'', \<lparr>b_count = 1, b_points = 1\<rparr>)],
      ce_daily_activity = [\<lparr>da_date = ''2024-03-01'', da_count = 1, da_points = 1\<rparr>],
      ce_activities = Some [issueActivity]\<rparr>"

definition yearAlice :: ContributorEntry where
  "yearAlice =
     \<lparr>ce_username = ''alice'', ce_name = Str ''Alice'', ce_avatar_url = ''a.png'',
      ce_role = ''Maintainer'', ce_total_points = 3,
      ce_activity_breakdown = [(''Issue opened'', \<lparr>b_count = 3, b_points = 3\<rparr>)],
      ce_daily_activity =
        [\<lparr>da_date = ''2024-03-01'', da_count = 1, da_points = 1\<rparr>,
         \<lparr>da_date = ''2023-11-20'', da_count = 2, da_points = 2\<rparr>],
      ce_activities = None\<rparr>"

definition exampleFiles :: "LeaderboardData option list" where
  "exampleFiles =
     [Some \<lparr>ld_period = ''month'', ld_updatedAt = 1710036000000, ld_entries = [monthAlice]\<rparr>,
      None,
      Some \<lparr>ld_period = ''year'', ld_updatedAt = 1710036000000, ld_entries = [yearAlice]\<rparr>]"

definition exampleServed :: Served where
  "exampleServed = projr (GET exampleEnv (Some exampleFiles))"

text \<open>
  Two more pairs of entries for alice. In the first pair the earlier file lists two
  pull requests beside the issue, and the later file declares the three issues
  only. In the second pair the earlier file lists fourteen pull requests and the
  issue, and the later file declares twenty pull requests and three issues.
\<close>

definition crowdedFirst :: ContributorEntry where
  "crowdedFirst = monthAlice\<lparr>ce_activities := Some [issueActivity, prActivity 1, prActivity 2]\<rparr>"

definition cappedFirst :: ContributorEntry where
  "cappedFirst = monthAlice\<lparr>ce_activities := Some (map prActivity [1..<15] @ [issueActivity])\<rparr>"

definition cappedLater :: ContributorEntry where
  "cappedLater =
     yearAlice\<lparr>ce_total_points := 43,
       ce_activity_breakdown :=
         [(''PR opened'', \<lparr>b_count = 20, b_points = 40\<rparr>),
          (''Issue opened'', \<lparr>b_count = 3, b_points = 3\<rparr>)]\<rparr>"

text \<open>
  The user objects of the actors in what the platform answered: the authors of
  the items found, the reviewers, and the actors of the issue events.
\<close>

definition reviewersOf :: "(GitHubPR \<times> GitHubReview list) list \<Rightarrow> GitHubUser list" where
  "reviewersOf results = concat (map (\<lambda>res. map rv_user (snd res)) results)"

definition eventActors ::
  "(GitHubSearchItem \<times> GitHubIssueEvent list option) list \<Rightarrow> GitHubUser list" where
  "eventActors issues =
     concat (map (\<lambda>iss. case snd iss of None \<Rightarrow> [] | Some events \<Rightarrow> map ev_actor events) issues)"

definition actors :: "Fetched \<Rightarrow> GitHubUser list" where
  "actors fetched =
     map si_user (prsOpened fetched) @ map si_user (prsMerged fetched) @
     map si_user (issuesOpened fetched) @
     concat (map (\<lambda>repo. reviewersOf (snd repo)) (repoReviews fetched)) @
     eventActors (updatedIssues fetched)"

text \<open>
  The usernames a run may write: the logins of the fetched actors that
  \<open>isBotUser\<close> lets pass, and the usernames of the prior snapshot.
\<close>

definition admitted :: "Fetched \<Rightarrow> ExistingYearData option \<Rightarrow> string set" where
  "admitted fetched existing =
     login ` set (filter (\<lambda>u. \<not> isBotUser (Some u)) (actors fetched)) \<union>
     (case existing of None \<Rightarrow> {} | Some ex \<Rightarrow> username ` set (ex_entries ex))"

definition groupItems :: "(string \<times> RecentActivityItem list) list \<Rightarrow> RecentActivityItem list" where
  "groupItems groups = concat (map snd groups)"

definition recentUsernames :: "RecentData \<Rightarrow> string list" where
  "recentUsernames r = map ri_username (groupItems (rd_groups r))"

text \<open>
  The invariant of the contributor map: every entry is stored under its username,
  which is in \<open>S\<close>. The actors that \<open>isBotUser\<close> lets pass have their login in \<open>S\<close>.
\<close>

definition knownUsers :: "string set \<Rightarrow> (string \<times> Contributor) list \<Rightarrow> bool" where
  "knownUsers S users = (\<forall>(k, u) \<in> set users. username u = k \<and> k \<in> S)"

definition allAdmitted :: "string set \<Rightarrow> GitHubUser list \<Rightarrow> bool" where
  "allAdmitted S us = (\<forall>u \<in> set us. \<not> isBotUser (Some u) \<longrightarrow> login u \<in> S)"

text \<open>
  A prior snapshot that holds an issue of alice dated 2024-04-01, three weeks
  after the example run is written, and a run to which the platform answers
  nothing.
\<close>

definition futureSnapshot :: ExistingYearData where
  "futureSnapshot =
     \<lparr>ex_period = ''year'', ex_updatedAt = 1709400000000, ex_lastFetchedAt = Some 1709400000000,
      ex_entries =
        [\<lparr>username = ''alice'', name = Null, avatar_url = Null, role = ''Contributor'',
          total_points = 1,
          activity_breakdown = [(Issue_opened, \<lparr>b_count = 1, b_points = 1\<rparr>)],
          daily_activity = [\<lparr>da_date = ''2024-04-01'', da_count = 1, da_points = 1\<rparr>],
          raw_activities =
            [\<lparr>ra_type = Issue_opened, ra_occured_at = ''2024-04-01T00:00:00Z'',
               ra_title = Str ''Crash'',
               ra_link = Str ''https://github.com/CircuitVerse/x/issues/12'', ra_points = 1\<rparr>]\<rparr>]\<rparr>"

definition nothingFetched :: Fetched where
  "nothingFetched =
     \<lparr>prsOpened = [], prsMerged = [], issuesOpened = [], repoReviews = [], updatedIssues = []\<rparr>"

text \<open>The usernames of a period snapshot with the timestamps of their events.\<close>

definition periodEvents :: "PeriodData \<Rightarrow> (string \<times> string list) list" where
  "periodEvents p = map (\<lambda>e. (ue_username e, map ra_occured_at (ue_activities e))) (pd_entries p)"

definition weekEvents :: "RunError + Outputs \<Rightarrow> (string \<times> string list) list" where
  "weekEvents r = (case r of Inl e \<Rightarrow> [] | Inr out \<Rightarrow> periodEvents (out_week out))"

section \<open>Properties of deduplication and recompute\<close>

lemma sum_bumpBucket:
  "sum_list (map (\<lambda>e. b_points (snd e)) (bumpBucket m k p)) =
   sum_list (map (\<lambda>e. b_points (snd e)) m) + p"
  by (induction m) auto

lemma recalcLoop_sums:
  "recalcLoop acts (t, bd, dm) = (t', bd', dm') \<Longrightarrow>
   t' = t + sum_list (map ra_points acts) \<and>
   sum_list (map (\<lambda>e. b_points (snd e)) bd') =
     sum_list (map (\<lambda>e. b_points (snd e)) bd) + sum_list (map ra_points acts) \<and>
   sum_list (map (\<lambda>e. b_points (snd e)) dm') =
     sum_list (map (\<lambda>e. b_points (snd e)) dm) + sum_list (map ra_points acts)"
proof (induction acts arbitrary: t bd dm)
  case Nil
  then show ?case by simp
next
  case (Cons act acts)
  from Cons.prems Cons.IH [of "t + ra_points act"
      "bumpBucket bd (ra_type act) (ra_points act)"
      "bumpBucket dm (take 10 (ra_occured_at act)) (ra_points act)"]
  show ?case by (simp add: sum_bumpBucket)
qed

lemma mset_like_insertBy:
  "sum_list (map f (insertBy cmp x xs)) = f x + sum_list (map f xs)"
  for f :: "'a \<Rightarrow> int"
  by (induction xs) auto

lemma sum_sortBy:
  "sum_list (map f (sortBy cmp xs)) = sum_list (map f xs)"
  for f :: "'a \<Rightarrow> int"
  by (induction xs) (auto simp: mset_like_insertBy)

lemma dedupFilter_keys:
  "distinct (map dedupKey (dedupFilter seen acts)) \<and>
   set (map dedupKey (dedupFilter seen acts)) \<inter> seen = {}"
proof (induction acts arbitrary: seen)
  case Nil
  then show ?case by simp
next
  case (Cons act acts)
  show ?case
  proof (cases "dedupKey act \<in> seen")
    case True
    with Cons.IH [of seen] show ?thesis by simp
  next
    case False
    with Cons.IH [of "insert (dedupKey act) seen"] show ?thesis by auto
  qed
qed

lemma dedupFilter_fixed:
  "distinct (map dedupKey acts) \<Longrightarrow> set (map dedupKey acts) \<inter> seen = {} \<Longrightarrow>
   dedupFilter seen acts = acts"
  by (induction acts arbitrary: seen) auto

lemma dedupFilter_idem: "dedupFilter {} (dedupFilter {} acts) = dedupFilter {} acts"
  using dedupFilter_keys [of "{}" acts] by (intro dedupFilter_fixed) auto

lemma dedupKey_identityKey: "identityKey a = identityKey b \<Longrightarrow> dedupKey a = dedupKey b"
  by (simp add: identityKey_def dedupKey_def)

lemma distinct_identityKey:
  "distinct (map dedupKey acts) \<Longrightarrow> distinct (map identityKey acts)"
proof (induction acts)
  case Nil
  then show ?case by simp
next
  case (Cons a acts)
  then have "dedupKey a \<notin> dedupKey ` set acts" by simp
  then have "identityKey a \<notin> identityKey ` set acts"
    using dedupKey_identityKey by (metis imageE imageI)
  with Cons show ?case by simp
qed

lemma recalculateUser_invariants:
  "total_points (recalculateUser lc u) = sum_list (map ra_points (raw_activities (recalculateUser lc u)))"
  "sum_list (map (\<lambda>e. b_points (snd e)) (activity_breakdown (recalculateUser lc u))) =
     total_points (recalculateUser lc u)"
  "sum_list (map da_points (daily_activity (recalculateUser lc u))) =
     total_points (recalculateUser lc u)"
  "distinct (map dedupKey (raw_activities (recalculateUser lc u)))"
proof -
  let ?acts = "dedupFilter {} (raw_activities u)"
  obtain t bd dm where st: "recalcLoop ?acts (0, [], []) = (t, bd, dm)"
    by (metis prod_cases3)
  from recalcLoop_sums [OF st]
  have t: "t = sum_list (map ra_points ?acts)"
    and bd: "sum_list (map (\<lambda>e. b_points (snd e)) bd) = sum_list (map ra_points ?acts)"
    and dm: "sum_list (map (\<lambda>e. b_points (snd e)) dm) = sum_list (map ra_points ?acts)"
    by simp_all
  have da: "map da_points (map dailyEntry dm) = map (\<lambda>e. b_points (snd e)) dm"
    by (simp add: dailyEntry_def)
  show "total_points (recalculateUser lc u) = sum_list (map ra_points (raw_activities (recalculateUser lc u)))"
    by (simp add: recalculateUser_def Let_def st t)
  show "sum_list (map (\<lambda>e. b_points (snd e)) (activity_breakdown (recalculateUser lc u))) =
     total_points (recalculateUser lc u)"
    by (simp add: recalculateUser_def Let_def st t bd)
  show "sum_list (map da_points (daily_activity (recalculateUser lc u))) =
     total_points (recalculateUser lc u)"
    using da dm by (simp add: recalculateUser_def Let_def st t sum_sortBy del: map_map)
  show "distinct (map dedupKey (raw_activities (recalculateUser lc u)))"
    using dedupFilter_keys [of "{}" "raw_activities u"]
    by (simp add: recalculateUser_def Let_def)
qed

lemma recalculateUser_idem:
  "recalculateUser lc (recalculateUser lc u) = recalculateUser lc u"
  by (simp add: recalculateUser_def Let_def dedupFilter_idem)

text \<open>
  Claim C1. After \<open>deduplicateAndRecalculate\<close> has run on any contributor map,
  every contributor's \<open>total_points\<close> is the sum of the points of its
  \<open>raw_activities\<close>, and so are the sum of the points in \<open>activity_breakdown\<close> and
  the sum of the points in \<open>daily_activity\<close>; and no two of its raw activities
  share the identity key (type, timestamp, link if present else title).
\<close>

theorem deduplicateAndRecalculate_invariants:
  "\<forall>(k, u) \<in> set (deduplicateAndRecalculate lc users).
     total_points u = sum_list (map ra_points (raw_activities u)) \<and>
     total_points u = sum_list (map (\<lambda>e. b_points (snd e)) (activity_breakdown u)) \<and>
     total_points u = sum_list (map da_points (daily_activity u)) \<and>
     distinct (map identityKey (raw_activities u))"
  by (auto simp: deduplicateAndRecalculate_def recalculateUser_invariants
      intro: distinct_identityKey)

theorem deduplicateAndRecalculate_invariants_witness:
  "deduplicateAndRecalculate codeUnitCompare aliceUsers = [(''alice'', aliceAfter)] \<and>
   total_points aliceAfter = 7 \<and>
   total_points aliceAfter = sum_list (map ra_points (raw_activities aliceAfter)) \<and>
   total_points aliceAfter = sum_list (map (\<lambda>e. b_points (snd e)) (activity_breakdown aliceAfter)) \<and>
   total_points aliceAfter = sum_list (map da_points (daily_activity aliceAfter)) \<and>
   distinct (map identityKey (raw_activities aliceAfter))"
proof -
  have out: "deduplicateAndRecalculate codeUnitCompare aliceUsers = [(''alice'', aliceAfter)]"
    by (simp add: deduplicateAndRecalculate_def recalculateUser_def aliceUsers_def aliceLog_def
        aliceAfter_def dedupKey_def dailyEntry_def Let_def)
  from deduplicateAndRecalculate_invariants [of codeUnitCompare aliceUsers]
  show ?thesis unfolding out by (simp add: aliceAfter_def)
qed

text \<open>
  Claim C2. Running \<open>deduplicateAndRecalculate\<close> on its own output changes
  nothing: every contributor keeps its raw activities, total, breakdown and days.
\<close>

theorem deduplicateAndRecalculate_idempotent:
  "deduplicateAndRecalculate lc (deduplicateAndRecalculate lc users) =
   deduplicateAndRecalculate lc users"
  by (simp add: deduplicateAndRecalculate_def recalculateUser_idem split_def)

section \<open>An incremental run without new events\<close>

lemma mapGet_None_iff: "mapGet m k = None \<longleftrightarrow> k \<notin> fst ` set m"
  by (induction m) (auto split: if_splits)

lemma mapSet_fresh: "k \<notin> fst ` set m \<Longrightarrow> mapSet m k v = m @ [(k, v)]"
  by (induction m) auto

lemma mapModify_last: "k \<notin> fst ` set m \<Longrightarrow> mapModify (m @ [(k, v)]) k f = m @ [(k, f v)]"
  by (induction m) auto

lemma mergeEntries_fresh:
  "distinct (map username entries) \<Longrightarrow> username ` set entries \<inter> fst ` set users = {} \<Longrightarrow>
   mergeEntries users entries =
     users @ map (\<lambda>e. (username e, (newUser e)\<lparr>raw_activities := raw_activities e\<rparr>)) entries"
proof (induction entries arbitrary: users)
  case Nil
  then show ?case by simp
next
  case (Cons e entries)
  from Cons.prems have fresh: "username e \<notin> fst ` set users" by auto
  let ?users = "users @ [(username e, (newUser e)\<lparr>raw_activities := raw_activities e\<rparr>)]"
  have step: "mergeEntries users (e # entries) = mergeEntries ?users entries"
    using fresh
    by (simp add: mapGet_None_iff mapSet_fresh mapModify_last newUser_def Let_def)
  from Cons.prems have "distinct (map username entries)"
    and "username ` set entries \<inter> fst ` set ?users = {}" by auto
  from Cons.IH [OF this] step show ?case by simp
qed

lemma recalculateUser_newUser:
  assumes "distinct (map dedupKey (raw_activities e))"
  shows "raw_activities (recalculateUser lc ((newUser e)\<lparr>raw_activities := raw_activities e\<rparr>)) =
           raw_activities e"
    and "total_points (recalculateUser lc ((newUser e)\<lparr>raw_activities := raw_activities e\<rparr>)) =
           sum_list (map ra_points (raw_activities e))"
proof -
  let ?u = "(newUser e)\<lparr>raw_activities := raw_activities e\<rparr>"
  have fx: "dedupFilter {} (raw_activities e) = raw_activities e"
    using assms by (intro dedupFilter_fixed) auto
  show raw: "raw_activities (recalculateUser lc ?u) = raw_activities e"
    by (simp add: recalculateUser_def Let_def fx)
  with recalculateUser_invariants(1) [of lc ?u]
  show "total_points (recalculateUser lc ?u) = sum_list (map ra_points (raw_activities e))"
    by simp
qed

text \<open>
  Claim C3. Take a prior year snapshot whose entries are deduplicated (and
  consistent, as a run writes them). Merging its entries into an empty contributor
  map and running \<open>deduplicateAndRecalculate\<close>, which is what an incremental run
  does when it fetched no event, gives every contributor of the snapshot, in the
  same order, the \<open>total_points\<close> it had: nothing is counted twice.
\<close>

theorem no_new_events_same_totals:
  assumes "snapshotConsistent (ex_entries ex)"
  shows "map (\<lambda>(k, u). (k, total_points u))
           (deduplicateAndRecalculate lc (mergeExistingActivities [] (Some ex))) =
         map (\<lambda>e. (username e, total_points e)) (ex_entries ex)"
proof -
  from assms have d: "distinct (map username (ex_entries ex))"
    and each: "\<And>e. e \<in> set (ex_entries ex) \<Longrightarrow>
         distinct (map dedupKey (raw_activities e)) \<and>
         total_points e = sum_list (map ra_points (raw_activities e))"
    by (auto simp: snapshotConsistent_def)
  have m: "mergeExistingActivities [] (Some ex) =
      map (\<lambda>e. (username e, (newUser e)\<lparr>raw_activities := raw_activities e\<rparr>)) (ex_entries ex)"
    using mergeEntries_fresh [OF d, of "[]"] by (simp add: mergeExistingActivities_def)
  show ?thesis
    unfolding m deduplicateAndRecalculate_def
    using each by (simp add: recalculateUser_newUser)
qed

theorem no_new_events_same_totals_witness:
  "snapshotConsistent (ex_entries priorSnapshot) \<and>
   map (\<lambda>(k, u). (k, total_points u))
     (deduplicateAndRecalculate codeUnitCompare (mergeExistingActivities [] (Some priorSnapshot))) =
   [(''alice'', 7)]"
proof -
  have ok: "snapshotConsistent (ex_entries priorSnapshot)"
    by (simp add: snapshotConsistent_def priorSnapshot_def aliceAfter_def aliceLog_def dedupKey_def)
  from no_new_events_same_totals [OF ok, of codeUnitCompare] ok
  show ?thesis by (simp add: priorSnapshot_def aliceAfter_def)
qed

section \<open>At most one review per reviewer and pull request\<close>

lemma showNat_digits: "CHR ''/'' \<notin> set (showNat n)"
proof (induction n rule: showNat.induct)
  case (1 n)
  have d: "CHR ''/'' \<noteq> digitChar k" if "k < 10" for k
  proof -
    have "digitChar k \<in> set ''0123456789''"
      unfolding digitChar_def using that by (intro nth_mem) simp
    then show ?thesis by auto
  qed
  show ?case
  proof (cases "n < 10")
    case True
    then show ?thesis using d [of n] by (simp add: showNat.simps [of n])
  next
    case False
    then show ?thesis using 1 d [of "n mod 10"] by (simp add: showNat.simps [of n])
  qed
qed

lemma split_at_last:
  assumes "xs @ c # d = xs' @ c # d'" "c \<notin> set d" "c \<notin> set d'"
  shows "xs = xs' \<and> d = d'"
proof -
  have "takeWhile (\<lambda>x. x \<noteq> c) (rev (xs @ c # d)) = rev d"
    using assms(2) by (auto simp: takeWhile_tail)
  moreover have "takeWhile (\<lambda>x. x \<noteq> c) (rev (xs' @ c # d')) = rev d'"
    using assms(3) by (auto simp: takeWhile_tail)
  ultimately have "d = d'" using assms(1) by (metis rev_is_rev_conv)
  with assms(1) show ?thesis by simp
qed

lemma reviewLink_key:
  assumes "reviewLink repo n = reviewLink repo' n'"
  shows "reviewDedupKey r repo n = reviewDedupKey r repo' n'"
proof -
  from assms have "(repo @ ''/pull'') @ CHR ''/'' # showNat n = (repo' @ ''/pull'') @ CHR ''/'' # showNat n'"
    by (simp add: reviewLink_def)
  from split_at_last [OF this showNat_digits showNat_digits]
  show ?thesis by (simp add: reviewDedupKey_def)
qed

lemma mapGet_mapModify:
  "mapGet (mapModify m k f) k' = (if k' = k then map_option f (mapGet m k) else mapGet m k')"
  by (induction m) auto

lemma mapGet_mapSet:
  "mapGet (mapSet m k v) k' = (if k' = k then Some v else mapGet m k')"
  by (induction m) auto

lemma mapGet_recordActivity:
  "mapGet (recordActivity env users user ty date title link) k =
     (if k = login user
      then Some (addActivity
             (case mapGet users k of
                Some e \<Rightarrow> e
              | None \<Rightarrow> the (mapGet (ensureUser env users user) k))
             ty date (POINTS ty) title link)
      else mapGet users k)"
  by (auto simp: recordActivity_def ensureUser_def mapGet_mapModify mapGet_mapSet)

lemma raw_new_user:
  "mapGet users (login user) = None \<Longrightarrow>
   raw_activities (the (mapGet (ensureUser env users user) (login user))) = []"
  by (simp add: ensureUser_def mapGet_mapSet)

lemma reviewCount_recordActivity:
  "reviewCount (recordActivity env users user Review_submitted date title (Str link)) r repo n =
   reviewCount users r repo n + (if r = login user \<and> link = reviewLink repo n then 1 else 0)"
  by (auto simp: reviewCount_def mapGet_recordActivity addActivity_def raw_new_user
      split: option.splits)

lemma processReview_inv:
  assumes "reviewInv users0 st"
  shows "reviewInv users0 (processReview env since now repoName pr st review)"
proof -
  let ?k = "reviewDedupKey (login (rv_user review)) repoName (pr_number pr)"
  let ?st' = "(insert ?k (fst st),
       recordActivity env (snd st) (rv_user review) Review_submitted (rv_submitted_at review)
         (Str (reviewTitle (pr_number pr))) (Str (reviewLink repoName (pr_number pr))))"
  have "reviewInv users0 ?st'" if fresh: "?k \<notin> fst st"
    unfolding reviewInv_def
  proof (intro allI)
    fix r repo n
    show "reviewCount (snd ?st') r repo n \<le> reviewCount users0 r repo n + 1 \<and>
        (reviewDedupKey r repo n \<notin> fst ?st' \<longrightarrow>
           reviewCount (snd ?st') r repo n = reviewCount users0 r repo n)"
    proof (cases "r = login (rv_user review) \<and> reviewLink repoName (pr_number pr) = reviewLink repo n")
      case True
      then have "reviewDedupKey r repo n = ?k"
        using reviewLink_key [of repo n repoName "pr_number pr" r] by simp
      with fresh assms have "reviewCount (snd st) r repo n = reviewCount users0 r repo n"
        by (simp add: reviewInv_def)
      with True \<open>reviewDedupKey r repo n = ?k\<close> show ?thesis
        by (simp add: reviewCount_recordActivity)
    next
      case False
      then have "reviewCount (snd ?st') r repo n = reviewCount (snd st) r repo n"
        by (auto simp: reviewCount_recordActivity)
      with assms show ?thesis by (simp add: reviewInv_def)
    qed
  qed
  with assms show ?thesis
    by (simp add: processReview_def Let_def)
qed

lemma foldl_inv:
  "(\<And>st x. P st \<Longrightarrow> P (f st x)) \<Longrightarrow> P st \<Longrightarrow> P (foldl f st xs)"
  by (induction xs arbitrary: st) auto

lemma processBatch_inv:
  "reviewInv users0 st \<Longrightarrow> reviewInv users0 (processBatch env since now repoName st results)"
proof (induction results arbitrary: st)
  case Nil
  then show ?case by simp
next
  case (Cons res results)
  obtain pr reviews where res: "res = (pr, reviews)" by (cases res)
  have "reviewInv users0 (foldl (processReview env since now repoName pr) st reviews)"
    using Cons.prems by (rule foldl_inv [rotated]) (rule processReview_inv)
  from Cons.IH [OF this] show ?case by (simp add: res)
qed

lemma processRepos_inv:
  "reviewInv users0 st \<Longrightarrow> reviewInv users0 (processRepos env since now st repos)"
proof (induction repos arbitrary: st)
  case Nil
  then show ?case by simp
next
  case (Cons repo repos)
  obtain repoName prs where repo: "repo = (repoName, prs)" by (cases repo)
  have "reviewInv users0 (foldl (processBatch env since now repoName) st (chunk prs BATCH_SIZE))"
    using Cons.prems by (rule foldl_inv [rotated]) (rule processBatch_inv)
  from Cons.IH [OF this] show ?case by (simp add: repo)
qed

lemma processReview_seen:
  "reviewDedupKey (login (rv_user review)) repoName (pr_number pr) \<in> fst st \<Longrightarrow>
   processReview env since now repoName pr st review = st"
  by (simp add: processReview_def Let_def)

lemma processReview_counted:
  "processReview env since now repoName pr st review \<noteq> st \<Longrightarrow>
   fst (processReview env since now repoName pr st review) =
     insert (reviewDedupKey (login (rv_user review)) repoName (pr_number pr)) (fst st)"
  by (auto simp: processReview_def Let_def split: if_splits)

text \<open>
  Claim C10. Whatever the platform answers during one run of \<open>fetchAllReviews\<close>,
  the log of a reviewer gains at most one review activity for a given pull request
  of a given repository. A review that is counted puts its key into \<open>reviewSeen\<close>,
  and a review whose key is in \<open>reviewSeen\<close> changes nothing: it is skipped before
  anything is added.
\<close>

theorem one_review_per_reviewer_and_pr:
  "reviewCount (fetchAllReviews env users since now repos) reviewer repoName n
     \<le> reviewCount users reviewer repoName n + 1 \<and>
   (\<forall>st pr review.
      processReview env since now repoName pr st review \<noteq> st \<longrightarrow>
      fst (processReview env since now repoName pr st review) =
        insert (reviewDedupKey (login (rv_user review)) repoName (pr_number pr)) (fst st)) \<and>
   (\<forall>st pr review.
      reviewDedupKey (login (rv_user review)) repoName (pr_number pr) \<in> fst st \<longrightarrow>
      processReview env since now repoName pr st review = st)"
proof -
  have "reviewInv users ({}, users)" by (simp add: reviewInv_def)
  from processRepos_inv [OF this, of env since now repos]
  have "reviewCount (fetchAllReviews env users since now repos) reviewer repoName n
     \<le> reviewCount users reviewer repoName n + 1"
    by (simp add: reviewInv_def fetchAllReviews_def)
  then show ?thesis
    using processReview_counted processReview_seen by (intro conjI allI impI)
qed

lemma review_examples:
  "reviewCount (fetchAllReviews exampleEnv [] 1709251200000 1710028800000 exampleReviews)
     ''rita'' ''x'' 7 \<ge> 1"
  "reviewCount [] ''rita'' ''x'' 7 = 0"
  "ritaSeen \<noteq> ({}, [])"
  "login (rv_user ritaApproved) = ''rita''"
  "pr_number examplePR7 = 7"
  by code_simp+

theorem one_review_per_reviewer_and_pr_witness:
  "reviewCount (fetchAllReviews exampleEnv [] 1709251200000 1710028800000 exampleReviews)
     ''rita'' ''x'' 7 = 1 \<and>
   reviewCount [] ''rita'' ''x'' 7 = 0 \<and>
   ritaSeen \<noteq> ({}, []) \<and>
   reviewDedupKey ''rita'' ''x'' 7 \<in> fst ritaSeen \<and>
   processReview exampleEnv 1709251200000 1710028800000 ''x'' examplePR7 ritaSeen ritaApproved =
     ritaSeen"
proof -
  note inst = one_review_per_reviewer_and_pr
    [of exampleEnv "[]" 1709251200000 1710028800000 exampleReviews "''rita''" "''x''" 7]
  from inst have "reviewCount (fetchAllReviews exampleEnv [] 1709251200000 1710028800000
      exampleReviews) ''rita'' ''x'' 7 \<le> reviewCount [] ''rita'' ''x'' 7 + 1"
    by (rule conjunct1)
  with review_examples(1,2)
  have one: "reviewCount (fetchAllReviews exampleEnv [] 1709251200000 1710028800000
      exampleReviews) ''rita'' ''x'' 7 = 1" by simp
  from inst review_examples(3) have "fst ritaSeen = insert (reviewDedupKey ''rita'' ''x'' 7) {}"
    unfolding ritaSeen_def by (simp add: human_def examplePR7_def)
  then have seen: "reviewDedupKey ''rita'' ''x'' 7 \<in> fst ritaSeen" by simp
  from inst have "reviewDedupKey (login (rv_user ritaApproved)) ''x'' (pr_number examplePR7)
      \<in> fst ritaSeen \<longrightarrow>
    processReview exampleEnv 1709251200000 1710028800000 ''x'' examplePR7 ritaSeen
      ritaApproved = ritaSeen" by blast
  with seen review_examples(4,5)
  have skip: "processReview exampleEnv 1709251200000 1710028800000 ''x'' examplePR7 ritaSeen
      ritaApproved = ritaSeen" by simp
  from one review_examples(2,3) seen skip show ?thesis by (intro conjI)
qed

section \<open>Scoring of label events\<close>

lemma startsWith_iff: "startsWith s t \<longleftrightarrow> (\<exists>b. s = t @ b)"
  by (induction s t rule: startsWith.induct) auto

lemma includesStr_iff: "includesStr s t \<longleftrightarrow> (\<exists>a b. s = a @ t @ b)"
proof (induction s)
  case Nil
  then show ?case by auto
next
  case (Cons c s)
  show ?case
  proof
    assume "includesStr (c # s) t"
    then consider "startsWith (c # s) t" | "includesStr s t" by auto
    then show "\<exists>a b. c # s = a @ t @ b"
    proof cases
      case 1
      then obtain b where "c # s = t @ b" by (auto simp: startsWith_iff)
      then have "c # s = [] @ t @ b" by simp
      then show ?thesis by blast
    next
      case 2
      with Cons obtain a b where "s = a @ t @ b" by auto
      then have "c # s = (c # a) @ t @ b" by simp
      then show ?thesis by blast
    qed
  next
    assume "\<exists>a b. c # s = a @ t @ b"
    then obtain a b where ab: "c # s = a @ t @ b" by auto
    show "includesStr (c # s) t"
    proof (cases a)
      case Nil
      with ab have "startsWith (c # s) t" by (auto simp: startsWith_iff)
      then show ?thesis by simp
    next
      case (Cons x a')
      with ab have "s = a' @ t @ b" by simp
      with Cons.IH have "includesStr s t" by auto
      then show ?thesis by simp
    qed
  qed
qed

lemma automatedLabels_lower: "map toLowerCase automatedLabels = automatedLabels"
  by code_simp

lemma label_examples:
  "\<not> isAutomatedLabel ''ci-label''"
  "isAutomatedLabel ''github_actions''"
  "isAutomatedLabel ''Not-Stale''"
  "labelScored (Some ''good first issue'')"
  by code_simp+

lemma isAutomatedLabel_iff:
  "isAutomatedLabel labelName \<longleftrightarrow>
   (\<exists>auto \<in> set automatedLabels. \<exists>a b. toLowerCase labelName = a @ auto @ b)"
proof -
  have "isAutomatedLabel labelName \<longleftrightarrow>
     (\<exists>auto \<in> set (map toLowerCase automatedLabels). includesStr (toLowerCase labelName) auto)"
    by (simp add: isAutomatedLabel_def list_ex_iff)
  then show ?thesis by (simp only: automatedLabels_lower includesStr_iff)
qed

lemma labelScored_iff:
  "labelScored label \<longleftrightarrow> (\<exists>l. label = Some l \<and> l \<noteq> [] \<and> \<not> isAutomatedLabel l)"
  by (cases label)
    (simp_all add: labelScored_def isAutomatedLabel_iff automatedLabels_def includesStr_iff)

lemma pointsOf_ensureUser: "pointsOf (ensureUser env users u) k = pointsOf users k"
  by (simp add: pointsOf_def ensureUser_def mapGet_mapSet)

lemma activitiesOf_ensureUser: "activitiesOf (ensureUser env users u) k = activitiesOf users k"
  by (simp add: activitiesOf_def ensureUser_def mapGet_mapSet)

lemma mapGet_ensureUser_login: "mapGet (ensureUser env users u) (login u) \<noteq> None"
  by (simp add: ensureUser_def mapGet_mapSet)

lemma pointsOf_addActivity:
  "mapGet m k0 \<noteq> None \<Longrightarrow>
   pointsOf (mapModify m k0 (\<lambda>e. addActivity e ty date p t l)) k =
     pointsOf m k + (if k = k0 then p else 0)"
  by (auto simp: pointsOf_def mapGet_mapModify addActivity_def)

lemma activitiesOf_addActivity:
  "mapGet m k0 \<noteq> None \<Longrightarrow>
   activitiesOf (mapModify m k0 (\<lambda>e. addActivity e ty date p t (Str l))) k =
     activitiesOf m k @
     (if k = k0
      then [\<lparr>ra_type = ty, ra_occured_at = date, ra_title = sanitizeTitle t, ra_link = Str l,
              ra_points = p\<rparr>]
      else [])"
  by (auto simp: activitiesOf_def mapGet_mapModify addActivity_def)

lemma isBotUser_empty_login: "login u = [] \<Longrightarrow> isBotUser (Some u)"
  by simp

text \<open>
  Claim C7, as the code has it. A \<open>labeled\<close> event made by a non-bot actor
  inside the fetch window contributes no activity and no points exactly when its
  label is missing or empty or contains, ignoring case, one of the words stale,
  wontfix, duplicate, invalid, dependencies, security, github_actions
  (\<open>includesStr_iff\<close>: as a substring); otherwise it is scored as one
  \<open>Issue labeled\<close> activity with 2 points for the actor. The label ci-label is not
  on the list.
\<close>

theorem labeled_event_scoring:
  assumes "ev_event event = ''labeled''"
  shows "pointsOf (processEvent env since now issue issueNumber users event) k =
           pointsOf users k +
           (if inScope env since now event \<and> labelScored (ev_label event) \<and>
               k = login (ev_actor event)
            then 2 else 0) \<and>
         activitiesOf (processEvent env since now issue issueNumber users event) k =
           activitiesOf users k @
           (if inScope env since now event \<and> labelScored (ev_label event) \<and>
               k = login (ev_actor event)
            then [\<lparr>ra_type = Issue_labeled, ra_occured_at = ev_created_at event,
                    ra_title = sanitizeTitle
                      (Str (''Labeled issue #'' @ issueNumber @ '': '' @ the (ev_label event))),
                    ra_link = Str (si_html_url issue), ra_points = 2\<rparr>]
            else [])"
proof (cases "inScope env since now event")
  case False
  then have "processEvent env since now issue issueNumber users event = users"
    by (auto simp: processEvent_def inScope_def)
  with False show ?thesis by simp
next
  case True
  then have scope: "login (ev_actor event) \<noteq> []" "\<not> isBotUser (Some (ev_actor event))"
    "\<not> dateLess (parseDate env (ev_created_at event)) since"
    "\<not> dateGreater (parseDate env (ev_created_at event)) now"
    using isBotUser_empty_login by (auto simp: inScope_def)
  let ?users' = "ensureUser env users (ev_actor event)"
  show ?thesis
  proof (cases "labelScored (ev_label event)")
    case False
    then have "processEvent env since now issue issueNumber users event = ?users'"
      using scope assms by (auto simp: processEvent_def labelScored_iff Let_def split: option.splits)
    with False show ?thesis by (simp add: pointsOf_ensureUser activitiesOf_ensureUser)
  next
    case scored: True
    then obtain l where l: "ev_label event = Some l" "l \<noteq> []" "\<not> isAutomatedLabel l"
      by (auto simp: labelScored_iff)
    have "processEvent env since now issue issueNumber users event =
        mapModify ?users' (login (ev_actor event))
          (\<lambda>entry. addActivity entry Issue_labeled (ev_created_at event) (POINTS Issue_labeled)
             (Str (''Labeled issue #'' @ issueNumber @ '': '' @ l)) (Str (si_html_url issue)))"
      using scope assms l by (simp add: processEvent_def Let_def)
    with scored True l show ?thesis
      by (simp add: pointsOf_addActivity activitiesOf_addActivity mapGet_ensureUser_login
          pointsOf_ensureUser activitiesOf_ensureUser)
  qed
qed

theorem labeled_event_scoring_witness:
  "ev_event (labeledEvent ''good first issue'') = ''labeled'' \<and>
   inScope exampleEnv 1709251200000 1710028800000 (labeledEvent ''good first issue'') \<and>
   labelScored (ev_label (labeledEvent ''good first issue'')) \<and>
   pointsOf (processEvent exampleEnv 1709251200000 1710028800000 exampleIssue ''12'' []
     (labeledEvent ''good first issue'')) ''maya'' = 2"
proof -
  have ev: "ev_event (labeledEvent ''good first issue'') = ''labeled''"
    by (simp add: labeledEvent_def)
  have sc: "inScope exampleEnv 1709251200000 1710028800000 (labeledEvent ''good first issue'')"
    by (simp add: inScope_def labeledEvent_def human_def exampleEnv_def exampleDates_def
        endsWith_def)
  have ls: "labelScored (ev_label (labeledEvent ''good first issue''))"
    by (simp add: labeledEvent_def label_examples)
  from labeled_event_scoring [OF ev, of exampleEnv 1709251200000 1710028800000 exampleIssue
      "''12''" "[]" "''maya''"] ev sc ls
  show ?thesis by (simp add: pointsOf_def labeledEvent_def human_def)
qed

text \<open>
  As the claim is written it fails: a label named ci-label is scored, a label
  named github_actions is not, and neither is a label that only contains a listed
  word.
\<close>

theorem label_denylist_counterexample:
  "scoreboard (processEvent exampleEnv 1709251200000 1710028800000 exampleIssue ''12'' []
     (labeledEvent ''ci-label'')) = [(''maya'', 2, [Issue_labeled])] \<and>
   scoreboard (processEvent exampleEnv 1709251200000 1710028800000 exampleIssue ''12'' []
     (labeledEvent ''github_actions'')) = [(''maya'', 0, [])] \<and>
   scoreboard (processEvent exampleEnv 1709251200000 1710028800000 exampleIssue ''12'' []
     (labeledEvent ''Not-Stale'')) = [(''maya'', 0, [])]"
  by (simp add: scoreboard_def processEvent_def labeledEvent_def human_def exampleEnv_def
      exampleDates_def endsWith_def label_examples ensureUser_def addActivity_def Let_def)

section \<open>Derived periods\<close>

lemma bumpBucket_keys:
  "map fst (bumpBucket m k p) = (if k \<in> fst ` set m then map fst m else map fst m @ [k])"
proof (induction m)
  case Nil
  then show ?case by simp
next
  case (Cons e m)
  obtain k' b where e: "e = (k', b)" by (cases e)
  show ?case
  proof (cases "k = k'")
    case True
    with e show ?thesis by simp
  next
    case False
    with e Cons.IH show ?thesis by (cases "k \<in> fst ` set m") simp_all
  qed
qed

lemma bumpBucket_distinct: "distinct (map fst m) \<Longrightarrow> distinct (map fst (bumpBucket m k p))"
  by (simp add: bumpBucket_keys)

lemma bumpBucket_set:
  "distinct (map fst m) \<Longrightarrow>
   set (bumpBucket m k p) =
     (case mapGet m k of
        None \<Rightarrow> insert (k, \<lparr>b_count = 1, b_points = p\<rparr>) (set m)
      | Some b \<Rightarrow> insert (k, \<lparr>b_count = b_count b + 1, b_points = b_points b + p\<rparr>)
                    (set m - {(k, b)}))"
proof (induction m)
  case Nil
  then show ?case by simp
next
  case (Cons e m)
  obtain k' b where e: "e = (k', b)" by (cases e)
  show ?case
  proof (cases "k = k'")
    case True
    with Cons.prems e have "(k, b) \<notin> set m" by (auto simp: image_iff)
    with True e show ?thesis by auto
  next
    case False
    with Cons e show ?thesis by (auto split: option.splits simp: image_iff)
  qed
qed

lemma mapGet_Some_iff: "distinct (map fst m) \<Longrightarrow> mapGet m k = Some v \<longleftrightarrow> (k, v) \<in> set m"
  by (induction m) (auto simp: image_iff split: if_splits)

lemma groupedBy_step:
  assumes "groupedBy key pts xs m"
  shows "groupedBy key pts (xs @ [x]) (bumpBucket m (key x) (pts x))"
proof -
  let ?B = "\<lambda>ys k. \<lparr>b_count = int (length (filter (\<lambda>a. key a = k) ys)),
                       b_points = sum_list (map pts (filter (\<lambda>a. key a = k) ys))\<rparr>"
  from assms have d: "distinct (map fst m)" and s: "set m = (\<lambda>k. (k, ?B xs k)) ` key ` set xs"
    by (simp_all add: groupedBy_def)
  have d': "distinct (map fst (bumpBucket m (key x) (pts x)))"
    using d by (rule bumpBucket_distinct)
  have other: "?B (xs @ [x]) k = ?B xs k" if "k \<noteq> key x" for k
    using that by auto
  have same: "?B (xs @ [x]) (key x) =
      \<lparr>b_count = b_count (?B xs (key x)) + 1, b_points = b_points (?B xs (key x)) + pts x\<rparr>"
    by simp
  have "set (bumpBucket m (key x) (pts x)) = (\<lambda>k. (k, ?B (xs @ [x]) k)) ` key ` set (xs @ [x])"
  proof (cases "key x \<in> key ` set xs")
    case True
    then have "(key x, ?B xs (key x)) \<in> set m" using s by auto
    then have g: "mapGet m (key x) = Some (?B xs (key x))" using d by (simp add: mapGet_Some_iff)
    have "set (bumpBucket m (key x) (pts x)) =
        insert (key x, ?B (xs @ [x]) (key x)) (set m - {(key x, ?B xs (key x))})"
      using bumpBucket_set [OF d, of "key x" "pts x"] g same by (simp add: add.commute)
    also have "set m - {(key x, ?B xs (key x))} = (\<lambda>k. (k, ?B xs k)) ` (key ` set xs - {key x})"
      using s by auto
    also have "\<dots> = (\<lambda>k. (k, ?B (xs @ [x]) k)) ` (key ` set xs - {key x})"
      by (intro image_cong) (auto simp: other)
    finally show ?thesis using True by auto
  next
    case False
    then have "key x \<notin> fst ` set m" using s by (auto simp: image_iff)
    then have g: "mapGet m (key x) = None" by (simp add: mapGet_None_iff)
    have nil: "filter (\<lambda>a. key a = key x) xs = []"
      using False by (auto simp: filter_empty_conv image_iff)
    have "set (bumpBucket m (key x) (pts x)) = insert (key x, ?B (xs @ [x]) (key x)) (set m)"
      using bumpBucket_set [OF d, of "key x" "pts x"] g nil by simp
    also have "set m = (\<lambda>k. (k, ?B (xs @ [x]) k)) ` key ` set xs"
      unfolding s using False by (intro image_cong) (auto simp: other)
    finally show ?thesis by auto
  qed
  with d' show ?thesis by (simp add: groupedBy_def)
qed


lemma dayBuckets_bumpDaily: "dayBuckets (bumpDaily m day p) = bumpBucket (dayBuckets m) day p"
  by (induction m) (auto simp: dayBuckets_def)

lemma datedByKey_bumpDaily: "datedByKey m \<Longrightarrow> datedByKey (bumpDaily m day p)"
  by (induction m) (auto simp: datedByKey_def)

lemma periodLoop_inv:
  "periodInv seen st \<Longrightarrow> periodInv (seen @ acts) (periodLoop acts st)"
proof (induction acts arbitrary: seen st)
  case Nil
  then show ?case by simp
next
  case (Cons a acts)
  obtain t bd dl where st: "st = (t, bd, dl)" by (cases st)
  let ?st = "(t + ra_points a, bumpBucket bd (ra_type a) (ra_points a),
              bumpDaily dl (splitT0 (ra_occured_at a)) (ra_points a))"
  from Cons.prems st have "periodInv (seen @ [a]) ?st"
    using groupedBy_step [of ra_type ra_points seen bd a]
      groupedBy_step [of "\<lambda>a. splitT0 (ra_occured_at a)" ra_points seen "dayBuckets dl" a]
    by (simp add: periodInv_def dayBuckets_bumpDaily datedByKey_bumpDaily)
  from Cons.IH [OF this] st show ?case by simp
qed

lemma periodLoop_start: "periodInv acts (periodLoop acts (0, [], []))"
proof -
  have "periodInv [] (0, [], [])"
    by (simp add: periodInv_def groupedBy_def dayBuckets_def datedByKey_def)
  from periodLoop_inv [OF this, of acts] show ?thesis by simp
qed

lemma datedByKey_snd:
  assumes "datedByKey m"
  shows "map snd m = map dailyEntry (dayBuckets m)"
proof -
  have "snd e = dailyEntry (fst e, \<lparr>b_count = da_count (snd e), b_points = da_points (snd e)\<rparr>)"
    if "da_date (snd e) = fst e" for e :: "string \<times> DailyActivity"
    using that by (cases "snd e") (simp add: dailyEntry_def)
  with assms show ?thesis
    by (induction m) (simp_all add: datedByKey_def dayBuckets_def)
qed

lemma periodEntry_None: "periodEntry env cutoff c = None \<longleftrightarrow> windowActs env cutoff c = []"
  by (simp add: periodEntry_def windowActs_def Let_def)

lemma periodEntry_Some:
  assumes "periodEntry env cutoff c = Some e"
  shows "ue_username e = username c" "ue_activities e = windowActs env cutoff c"
    "recomputedFrom (windowActs env cutoff c) e"
proof -
  let ?acts = "windowActs env cutoff c"
  let ?st = "periodLoop ?acts (0, [], [])"
  from assms have e: "e = \<lparr>ue_username = username c, ue_name = name c,
      ue_avatar_url = avatar_url c, ue_role = role c, ue_total_points = fst ?st,
      ue_activity_breakdown = fst (snd ?st), ue_daily_activity = map snd (snd (snd ?st)),
      ue_activities = ?acts\<rparr>"
    by (auto simp: periodEntry_def windowActs_def Let_def split: if_splits)
  then have tp: "ue_total_points e = fst ?st"
    and bdn: "ue_activity_breakdown e = fst (snd ?st)"
    and dly: "ue_daily_activity e = map snd (snd (snd ?st))"
    and un: "ue_username e = username c" and ac: "ue_activities e = ?acts"
    by simp_all
  show "ue_username e = username c" "ue_activities e = ?acts" by (rule un, rule ac)
  have inv: "periodInv ?acts ?st" by (rule periodLoop_start)
  then have t: "fst ?st = sum_list (map ra_points ?acts)"
    and bd: "groupedBy ra_type ra_points ?acts (fst (snd ?st))"
    and dl: "groupedBy (\<lambda>a. splitT0 (ra_occured_at a)) ra_points ?acts (dayBuckets (snd (snd ?st)))"
    and dk: "datedByKey (snd (snd ?st))"
    by (simp_all add: periodInv_def)
  have daily: "ue_daily_activity e = map dailyEntry (dayBuckets (snd (snd ?st)))"
    using dly datedByKey_snd [OF dk] by simp
  have dates: "map da_date (map dailyEntry m) = map fst m" for m
    by (simp add: dailyEntry_def)
  have d1: "distinct (map da_date (ue_daily_activity e))"
    unfolding daily dates using dl by (simp add: groupedBy_def)
  have d2: "set (ue_daily_activity e) =
      dayBucket ?acts ` (\<lambda>a. splitT0 (ra_occured_at a)) ` set ?acts"
  proof -
    have "set (ue_daily_activity e) = dailyEntry ` set (dayBuckets (snd (snd ?st)))"
      unfolding daily by simp
    also have "set (dayBuckets (snd (snd ?st))) =
        (\<lambda>k. (k, \<lparr>b_count = int (length (filter (\<lambda>a. splitT0 (ra_occured_at a) = k) ?acts)),
                         b_points = sum_list (map ra_points (filter (\<lambda>a. splitT0 (ra_occured_at a) = k) ?acts))\<rparr>))
          ` (\<lambda>a. splitT0 (ra_occured_at a)) ` set ?acts"
      using dl unfolding groupedBy_def by (rule conjunct2)
    also have "dailyEntry ` \<dots> = dayBucket ?acts ` (\<lambda>a. splitT0 (ra_occured_at a)) ` set ?acts"
      unfolding image_image by (rule image_cong) (simp_all add: dailyEntry_def dayBucket_def)
    finally show ?thesis .
  qed
  have b1: "distinct (map fst (ue_activity_breakdown e))"
    unfolding bdn using bd by (simp add: groupedBy_def)
  have b2: "set (ue_activity_breakdown e) = (\<lambda>ty. (ty, labelBucket ?acts ty)) ` ra_type ` set ?acts"
    unfolding bdn using bd by (simp add: groupedBy_def labelBucket_def)
  show "recomputedFrom ?acts e"
    unfolding recomputedFrom_def using tp t b1 b2 d1 d2 by simp
qed


lemma mset_insertBy: "mset (insertBy cmp x xs) = add_mset x (mset xs)"
  by (induction xs) auto

lemma mset_sortBy: "mset (sortBy cmp xs) = mset xs"
  by (induction xs) (auto simp: mset_insertBy)

lemma set_sortBy: "set (sortBy cmp xs) = set xs"
  using mset_sortBy [of cmp xs] by (metis set_mset_mset)

lemma set_insertBy: "set (insertBy cmp x xs) = insert x (set xs)"
  using mset_insertBy [of cmp x xs] by (metis set_mset_mset set_mset_add_mset_insert)

lemma sorted_insertBy:
  fixes f :: "'a \<Rightarrow> int"
  assumes "sorted_wrt (\<lambda>a b. f a \<ge> f b) xs"
  shows "sorted_wrt (\<lambda>a b. f a \<ge> f b) (insertBy (\<lambda>a b. f b - f a) x xs)"
  using assms
proof (induction xs)
  case Nil
  then show ?case by simp
next
  case (Cons y ys)
  show ?case
  proof (cases "f y - f x \<le> 0")
    case True
    with Cons.prems show ?thesis by auto
  next
    case False
    with Cons show ?thesis by (auto simp: set_insertBy)
  qed
qed

lemma sorted_sortBy:
  fixes f :: "'a \<Rightarrow> int"
  shows "sorted_wrt (\<lambda>a b. f a \<ge> f b) (sortBy (\<lambda>a b. f b - f a) xs)"
  by (induction xs) (simp_all add: sorted_insertBy)

lemma map_filter_periodEntry:
  "mset (map (\<lambda>e. (ue_username e, ue_activities e)) (List.map_filter (periodEntry env cutoff) source)) =
   mset (map (\<lambda>c. (username c, windowActs env cutoff c))
          (filter (\<lambda>c. windowActs env cutoff c \<noteq> []) source))"
proof (induction source)
  case Nil
  then show ?case by (simp add: List.map_filter_simps)
next
  case (Cons c source)
  show ?case
  proof (cases "periodEntry env cutoff c")
    case None
    then have "windowActs env cutoff c = []" by (simp add: periodEntry_None)
    with None Cons show ?thesis by (simp add: List.map_filter_simps)
  next
    case (Some e)
    then have "windowActs env cutoff c \<noteq> []" using periodEntry_None [of env cutoff c] by simp
    with Some Cons periodEntry_Some(1,2) [OF Some] show ?thesis
      by (simp add: List.map_filter_simps)
  qed
qed

lemma set_map_filter: "set (List.map_filter f xs) = {y. \<exists>x \<in> set xs. f x = Some y}"
  by (induction xs) (auto simp: List.map_filter_simps split: option.splits)

lemma derivePeriod_ok:
  "periodSnapshotOk env (daysAgo env (pc_cutoff clock) days) (yd_entries source)
     (pd_entries (derivePeriod env clock source days period))"
proof -
  let ?cutoff = "daysAgo env (pc_cutoff clock) days"
  let ?raw = "List.map_filter (periodEntry env ?cutoff) (yd_entries source)"
  let ?entries = "sortBy (\<lambda>a b. ue_total_points b - ue_total_points a) ?raw"
  have pd: "pd_entries (derivePeriod env clock source days period) = ?entries"
    by (simp add: derivePeriod_def Let_def)
  have each: "ue_activities e = windowActs env ?cutoff c \<and> recomputedFrom (ue_activities e) e"
    if "periodEntry env ?cutoff c = Some e" for c e
    using periodEntry_Some(2,3) [OF that] by simp
  have mem: "\<exists>c. periodEntry env ?cutoff c = Some e" if "e \<in> set ?entries" for e
    using that by (auto simp: set_sortBy set_map_filter)
  have w: "\<forall>e \<in> set ?entries. \<forall>a \<in> set (ue_activities e).
          dateGeq (parseDate env (ra_occured_at a)) ?cutoff"
  proof (intro ballI)
    fix e a assume "e \<in> set ?entries" "a \<in> set (ue_activities e)"
    with mem each obtain c where "a \<in> set (windowActs env ?cutoff c)" by metis
    then show "dateGeq (parseDate env (ra_occured_at a)) ?cutoff" by (simp add: windowActs_def)
  qed
  have r: "\<forall>e \<in> set ?entries. recomputedFrom (ue_activities e) e"
    using mem each by metis
  have m: "mset (map (\<lambda>e. (ue_username e, ue_activities e)) ?entries) =
        mset (map (\<lambda>c. (username c, windowActs env ?cutoff c))
               (filter (\<lambda>c. windowActs env ?cutoff c \<noteq> []) (yd_entries source)))"
    using map_filter_periodEntry [of env ?cutoff "yd_entries source"]
    by (simp add: mset_sortBy)
  have s: "sorted_wrt (\<lambda>a b. ue_total_points a \<ge> ue_total_points b) ?entries"
    by (rule sorted_sortBy)
  show ?thesis unfolding pd periodSnapshotOk_def using w m r s by blast
qed

lemma generateYear_Inr:
  assumes "generateYear env clock existing fetched = Inr out"
  shows "\<exists>users. collectUsers env clock existing fetched = Inr users \<and>
           out_year out = yearDataOf env clock users \<and>
           out_week out = derivePeriod env (weekClock clock) (out_year out) 7 ''week'' \<and>
           out_month out = derivePeriod env (monthClock clock) (out_year out) 30 ''month'' \<and>
           out_recent out =
             generateRecentActivities env (atRecentCutoff clock) (atRecentUpdated clock)
               (out_year out) 14"
  using assms by (auto simp: generateYear_def Let_def split: sum.splits)

text \<open>
  In a zone without changes of its offset, \<open>daysAgo\<close> goes back by days of 24
  hours. Across a change of the offset it does not: on 2024-11-07 at 12:00 UTC in
  the zone of \<open>easternEnv\<close>, 30 days ago is 2024-10-08 at 11:00 UTC, an hour
  more than 30 times 24 hours before.
\<close>

lemma DateFromTime_examples:
  "DateFromTime 0 = 1"
  "DateFromTime (- 1) = 31"
  "DateFromTime 1709251199999 = 29"
  "DateFromTime 1709251200000 = 1"
  "DateFromTime 1710036000000 = 10"
  "zoneGetDate easternOffsetAt 1730980800000 = 7"
  "zoneGetDate easternOffsetAt 1728385200000 = 8"
  by code_simp+

lemma daysAgo_utc: "daysAgo exampleEnv t n = t - n * 86400000"
  by (simp add: daysAgo_def exampleEnv_def zoneGetDate_def zoneSetDate_def msPerDay_def
      algebra_simps)

lemma daysAgo_daylight_saving:
  "daysAgo easternEnv 1730980800000 30 = 1728385200000"
  "1730980800000 - 30 * (86400000 :: int) = 1728388800000"
  by code_simp+

text \<open>
  Claim C9, with the window as the projection has it. In the month snapshot that
  a run writes, every event of every entry has a timestamp that is not before the
  cutoff \<open>daysAgo(30)\<close>, the generation time moved back by 30 days of the local
  calendar (\<open>daysAgo(7)\<close> for the week snapshot); the window has no upper end. A
  contributor of the year snapshot without an event in the window has no entry,
  every other contributor has one, with exactly the events in the window; the
  total, the breakdown and the days of an entry are recomputed from the events in
  the window only; and the entries are in descending order of \<open>total_points\<close>.
\<close>

theorem derived_periods_windowed:
  assumes "generateYear env clock existing fetched = Inr out"
  shows "periodSnapshotOk env (daysAgo env (pc_cutoff (monthClock clock)) 30)
           (yd_entries (out_year out)) (pd_entries (out_month out)) \<and>
         periodSnapshotOk env (daysAgo env (pc_cutoff (weekClock clock)) 7)
           (yd_entries (out_year out)) (pd_entries (out_week out))"
proof -
  from generateYear_Inr [OF assms]
  have w: "out_week out = derivePeriod env (weekClock clock) (out_year out) 7 ''week''"
    and m: "out_month out = derivePeriod env (monthClock clock) (out_year out) 30 ''month''"
    by auto
  show ?thesis
    using derivePeriod_ok [of env "monthClock clock" 30 "out_year out" "''month''"]
      derivePeriod_ok [of env "weekClock clock" 7 "out_year out" "''week''"]
    by (simp add: w [symmetric] m [symmetric])
qed

lemma exampleRun_ok: "exampleRun = Inr exampleOut"
proof -
  have "isl exampleRun = False" by code_simp
  then show ?thesis by (cases exampleRun) (simp_all add: exampleOut_def)
qed

theorem derived_periods_windowed_witness:
  "generateYear exampleEnv exampleClock None exampleFetched = Inr exampleOut \<and>
   periodBoard (out_month exampleOut) = [(''alice'', 8), (''rita'', 4), (''maya'', 2)] \<and>
   periodBoard (out_week exampleOut) = [(''alice'', 5), (''maya'', 2)] \<and>
   periodSnapshotOk exampleEnv (daysAgo exampleEnv 1710036000000 30)
     (yd_entries (out_year exampleOut)) (pd_entries (out_month exampleOut)) \<and>
   periodSnapshotOk exampleEnv (daysAgo exampleEnv 1710036000000 7)
     (yd_entries (out_year exampleOut)) (pd_entries (out_week exampleOut))"
proof -
  have run: "generateYear exampleEnv exampleClock None exampleFetched = Inr exampleOut"
    using exampleRun_ok by (simp add: exampleRun_def)
  have m: "periodBoard (out_month exampleOut) = [(''alice'', 8), (''rita'', 4), (''maya'', 2)]"
    by code_simp
  have w: "periodBoard (out_week exampleOut) = [(''alice'', 5), (''maya'', 2)]"
    by code_simp
  from derived_periods_windowed [OF run] run m w
  show ?thesis by (simp add: exampleClock_def examplePeriodClock_def)
qed

text \<open>
  The window is not the trailing one. A run written on 2024-03-10 at 02:00 UTC
  whose prior snapshot holds an event dated 2024-04-01 puts that event into the
  week snapshot: it is after the last reading of the clock, not within the seven
  days before it.
\<close>

theorem future_event_in_week_counterexample:
  "weekEvents (generateYear exampleEnv exampleClock (Some futureSnapshot) nothingFetched) =
     [(''alice'', [''2024-04-01T00:00:00Z''])] \<and>
   parseDate exampleEnv ''2024-04-01T00:00:00Z'' = Some 1711929600000 \<and>
   pc_cutoff (weekClock exampleClock) = 1710036000000 \<and>
   pc_end (weekClock exampleClock) = 1710036000000 \<and>
   daysAgo exampleEnv (pc_cutoff (weekClock exampleClock)) 7 = 1709431200000 \<and>
   dateGreater (parseDate exampleEnv ''2024-04-01T00:00:00Z'') (pc_end (weekClock exampleClock))"
  by code_simp

section \<open>The fetch cursor\<close>

text \<open>The cursor that a run writes is the reading of the clock when the snapshot is written.\<close>

lemma cursor_is_write_time:
  "generateYear env clock existing fetched = Inr out \<Longrightarrow>
   yd_lastFetchedAt (out_year out) = atCursor clock"
  by (auto simp: generateYear_def yearDataOf_def Let_def split: sum.splits)

text \<open>
  Claim C6 asks for a cursor equal to the start of the run, the upper bound of the
  fetch window. In the example run, started at 1710028800000 and written at
  1710036000000, the cursor is the later instant. The review that sam submits in
  between is skipped by this run, being after its start, and by the next run,
  being before the cursor; with the start of the run as cursor the next run
  counts it.
\<close>

theorem cursor_after_fetch_window:
  "generateYear exampleEnv exampleClock None exampleFetched = Inr exampleOut \<and>
   atStart exampleClock = 1710028800000 \<and>
   yd_lastFetchedAt (out_year exampleOut) = 1710036000000 \<and>
   yearBoard (out_year exampleOut) =
     [(''alice'', 8), (''rita'', 4), (''deploy-bot'', 2), (''maya'', 2)] \<and>
   runBoard (generateYear exampleEnv nextClock (Some (reload (out_year exampleOut))) nextFetched) =
     [(''alice'', 8), (''rita'', 4), (''deploy-bot'', 2), (''maya'', 2)] \<and>
   runBoard (generateYear exampleEnv nextClock
       (Some ((reload (out_year exampleOut))\<lparr>ex_lastFetchedAt := Some (atStart exampleClock)\<rparr>))
       nextFetched) =
     [(''alice'', 8), (''sam'', 4), (''rita'', 4), (''deploy-bot'', 2), (''maya'', 2)]"
proof -
  have run: "generateYear exampleEnv exampleClock None exampleFetched = Inr exampleOut"
    using exampleRun_ok by (simp add: exampleRun_def)
  have 1: "atStart exampleClock = 1710028800000" by code_simp
  have 2: "yd_lastFetchedAt (out_year exampleOut) = 1710036000000" by code_simp
  have 3: "yearBoard (out_year exampleOut) =
     [(''alice'', 8), (''rita'', 4), (''deploy-bot'', 2), (''maya'', 2)]" by code_simp
  have 4: "runBoard (generateYear exampleEnv nextClock (Some (reload (out_year exampleOut))) nextFetched) =
     [(''alice'', 8), (''rita'', 4), (''deploy-bot'', 2), (''maya'', 2)]" by code_simp
  have 5: "runBoard (generateYear exampleEnv nextClock
       (Some ((reload (out_year exampleOut))\<lparr>ex_lastFetchedAt := Some (atStart exampleClock)\<rparr>))
       nextFetched) =
     [(''alice'', 8), (''sam'', 4), (''rita'', 4), (''deploy-bot'', 2), (''maya'', 2)]" by code_simp
  from run 1 2 3 4 5 show ?thesis by blast
qed

section \<open>Merging the snapshot files when serving\<close>

lemma mapSet_keys:
  "map fst (mapSet m k v) = (if k \<in> fst ` set m then map fst m else map fst m @ [k])"
proof (induction m)
  case Nil
  then show ?case by simp
next
  case (Cons e m)
  obtain k' b where e: "e = (k', b)" by (cases e)
  show ?case
  proof (cases "k = k'")
    case True
    with e show ?thesis by simp
  next
    case False
    with e Cons.IH show ?thesis by (cases "k \<in> fst ` set m") simp_all
  qed
qed

lemma mapSet_distinct: "distinct (map fst m) \<Longrightarrow> distinct (map fst (mapSet m k v))"
  by (simp add: mapSet_keys)

lemma mapSet_mem:
  assumes "distinct (map fst m)" "(k', p) \<in> set (mapSet m k v)"
  shows "(k' = k \<and> p = v) \<or> (k' \<noteq> k \<and> (k', p) \<in> set m)"
proof -
  from assms have "mapGet (mapSet m k v) k' = Some p"
    by (simp add: mapGet_Some_iff mapSet_distinct)
  then show ?thesis using assms(1) by (auto simp: mapGet_mapSet mapGet_Some_iff split: if_splits)
qed

lemma lastEntryOf_snoc:
  "lastEntryOf k (es @ [x]) = (if ce_username x = k then Some x else lastEntryOf k es)"
  by (simp add: lastEntryOf_def)

lemma baseFields_mergedEntry: "baseFields (mergedEntry env existing entry) = baseFields entry"
  "ce_username (mergedEntry env existing entry) = ce_username entry"
  by (simp_all add: baseFields_def mergedEntry_def)

lemma mergeStep_inv:
  assumes "mergeInv es allContributors"
  shows "mergeInv (es @ [x]) (mergeStep env allContributors x)"
proof (cases "isBot (ce_username x)")
  case True
  then have "mergeStep env allContributors x = allContributors" by (simp add: mergeStep_def)
  moreover have "lastEntryOf k (es @ [x]) = lastEntryOf k es" if "\<not> isBot k" for k
    using that True by (auto simp: lastEntryOf_snoc)
  ultimately show ?thesis using assms by (auto simp: mergeInv_def)
next
  case False
  let ?k = "ce_username x"
  obtain v where v: "mergeStep env allContributors x = mapSet allContributors ?k v"
    "ce_username v = ?k" "baseFields v = baseFields x"
    using False
    by (cases "mapGet allContributors ?k")
      (simp_all add: mergeStep_def baseFields_mergedEntry, simp add: baseFields_def)
  from assms have d: "distinct (map fst allContributors)" by (simp add: mergeInv_def)
  have 1: "distinct (map fst (mapSet allContributors ?k v))" using d by (rule mapSet_distinct)
  have 2: "\<forall>k p. (k, p) \<in> set (mapSet allContributors ?k v) \<longrightarrow>
         ce_username p = k \<and> \<not> isBot k \<and>
         (\<exists>e. lastEntryOf k (es @ [x]) = Some e \<and> baseFields p = baseFields e)"
  proof (intro allI impI)
    fix k p assume "(k, p) \<in> set (mapSet allContributors ?k v)"
    from mapSet_mem [OF d this]
    consider "k = ?k \<and> p = v" | "k \<noteq> ?k \<and> (k, p) \<in> set allContributors" by blast
    then show "ce_username p = k \<and> \<not> isBot k \<and>
         (\<exists>e. lastEntryOf k (es @ [x]) = Some e \<and> baseFields p = baseFields e)"
    proof cases
      case 1
      with v False show ?thesis by (simp add: lastEntryOf_snoc)
    next
      case 2
      with assms show ?thesis by (auto simp: mergeInv_def lastEntryOf_snoc)
    qed
  qed
  show ?thesis unfolding mergeInv_def v(1) using 1 2 by blast
qed

lemma foldl_mergeStep_inv:
  "mergeInv es allContributors \<Longrightarrow>
   mergeInv (es @ xs) (foldl (mergeStep env) allContributors xs)"
proof (induction xs arbitrary: es allContributors)
  case Nil
  then show ?case by simp
next
  case (Cons x xs)
  from Cons.IH [OF mergeStep_inv [OF Cons.prems, of x env]] show ?case by simp
qed

lemma foldl_mergeFile:
  "fst (foldl (mergeFile env) st files) = foldl (mergeStep env) (fst st) (fileEntries files)"
proof (induction files arbitrary: st)
  case Nil
  then show ?case by (simp add: fileEntries_def)
next
  case (Cons f files)
  show ?case
  proof (cases f)
    case None
    with Cons [of st] show ?thesis by (simp add: fileEntries_def mergeFile_def)
  next
    case (Some d)
    with Cons [of "mergeFile env st f"] show ?thesis
      by (simp add: fileEntries_def mergeFile_def)
  qed
qed

lemma served_examples:
  "GET exampleEnv (Some exampleFiles) = Inr exampleServed"
  "hd (sv_people exampleServed) \<in> set (sv_people exampleServed)"
  "ce_username (hd (sv_people exampleServed)) = ''alice''"
  "lastEntryOf ''alice'' (fileEntries exampleFiles) = Some yearAlice"
  "firstEntryOf ''alice'' (fileEntries exampleFiles) = Some monthAlice"
  "ce_total_points monthAlice = 1"
  "servedBoard (GET exampleEnv (Some exampleFiles)) = [(''alice'', 3)]"
  by code_simp+

text \<open>
  Claim C5, as the code has it. For every username in the served list, the merged
  entry's name, avatar, role, total, breakdown and days are those of the last
  entry with that username in the files, in the order in which they are read (the
  spread of the later entry comes second); the files read earlier contribute to the
  activity list only. No served username matches the bot naming rules.
\<close>

theorem last_file_base_fields_win:
  assumes "GET env (Some files) = Inr served" and "p \<in> set (sv_people served)"
  shows "\<not> isBot (ce_username p) \<and>
         (\<exists>e. lastEntryOf (ce_username p) (fileEntries files) = Some e \<and>
              baseFields p = baseFields e)"
proof -
  let ?all = "foldl (mergeStep env) [] (fileEntries files)"
  have "mergeInv [] []" by (simp add: mergeInv_def)
  from foldl_mergeStep_inv [OF this, of "fileEntries files" env]
  have inv: "mergeInv (fileEntries files) ?all" by simp
  from assms(1) have "sv_people served =
      sortBy (\<lambda>a b. ce_total_points b - ce_total_points a) (map snd ?all)"
    using foldl_mergeFile [of env "([], 0)" files] by (auto simp: GET_def Let_def)
  with assms(2) obtain k where "(k, p) \<in> set ?all" by (auto simp: set_sortBy)
  with inv show ?thesis by (auto simp: mergeInv_def)
qed

theorem last_file_base_fields_win_witness:
  "GET exampleEnv (Some exampleFiles) = Inr exampleServed \<and>
   hd (sv_people exampleServed) \<in> set (sv_people exampleServed) \<and>
   ce_username (hd (sv_people exampleServed)) = ''alice'' \<and>
   lastEntryOf ''alice'' (fileEntries exampleFiles) = Some yearAlice \<and>
   baseFields (hd (sv_people exampleServed)) = baseFields yearAlice"
  using last_file_base_fields_win [OF served_examples(1) served_examples(2)]
  by (simp add: served_examples)

text \<open>
  As the claim is written it fails: alice is first seen in the month file with one
  point, and the served entry has the three points of the year file read later.
\<close>

theorem first_file_base_fields_counterexample:
  "firstEntryOf ''alice'' (fileEntries exampleFiles) = Some monthAlice \<and>
   ce_total_points monthAlice = 1 \<and>
   servedBoard (GET exampleEnv (Some exampleFiles)) = [(''alice'', 3)]"
  using served_examples(5,6,7) by blast

section \<open>Placeholders\<close>

lemma addPlaceholders_filter:
  "distinct (map fst bd) \<Longrightarrow>
   filter (\<lambda>a. act_type a = ty) (addPlaceholders combined bd) =
     filter (\<lambda>a. act_type a = ty) combined @
     (case mapGet bd ty of
        None \<Rightarrow> []
      | Some info \<Rightarrow>
          replicate (nat (b_count info - int (length (filter (\<lambda>a. act_type a = ty) combined))))
            (placeholder ty info))"
proof (induction bd arbitrary: combined)
  case Nil
  then show ?case by simp
next
  case (Cons e bd)
  obtain ty' info' where e: "e = (ty', info')" by (cases e)
  let ?m = "nat (b_count info' - int (length (filter (\<lambda>a. act_type a = ty') combined)))"
  let ?combined = "combined @ replicate ?m (placeholder ty' info')"
  from Cons.prems e have d: "distinct (map fst bd)" and fresh: "ty' \<notin> fst ` set bd" by auto
  have step: "addPlaceholders combined (e # bd) = addPlaceholders ?combined bd"
    by (simp add: e Let_def)
  show ?case
  proof (cases "ty = ty'")
    case True
    with fresh have none: "mapGet bd ty = None" by (simp add: mapGet_None_iff)
    have "filter (\<lambda>a. act_type a = ty) ?combined =
        filter (\<lambda>a. act_type a = ty) combined @ replicate ?m (placeholder ty' info')"
      using True by (simp add: placeholder_def)
    with Cons.IH [OF d, of ?combined] none True e step show ?thesis by simp
  next
    case False
    then have "filter (\<lambda>a. act_type a = ty) ?combined = filter (\<lambda>a. act_type a = ty) combined"
      by (simp add: placeholder_def)
    with Cons.IH [OF d, of ?combined] False e step show ?thesis
      by (simp split: option.splits)
  qed
qed

lemma placeholder_examples:
  "mapGet (ce_activity_breakdown yearAlice) ''Issue opened'' = Some \<lparr>b_count = 3, b_points = 3\<rparr>"
  "distinct (map fst (ce_activity_breakdown yearAlice))"
  "countOfType ''Issue opened'' (unionActivities exampleEnv monthAlice yearAlice) = 1"
  "int (length (unionActivities exampleEnv monthAlice yearAlice)) < expectedCount yearAlice"
  "placeholdersIn ''Issue opened'' (mergedEntry exampleEnv monthAlice yearAlice) = 2"
  "length (combinedActivities exampleEnv monthAlice yearAlice) = 3"
  by code_simp+

text \<open>
  Claim C8, as the code has it. Let the later entry declare three issues opened,
  and let the union of the activities hold one. If the union holds fewer
  activities than the declared counts of all labels together, the merge appends
  exactly two placeholders for the label, each with the title Issue opened
  contribution, an empty link and the epoch timestamp, so that the list holds
  three entries of that type; all of them are served when the list with every
  placeholder has at most 15 entries.
\<close>

theorem placeholders_fill_declared_count:
  assumes "mapGet (ce_activity_breakdown entry) ''Issue opened'' = Some info"
    and "b_count info = 3"
    and "distinct (map fst (ce_activity_breakdown entry))"
    and "countOfType ''Issue opened'' (unionActivities env existing entry) = 1"
    and "int (length (unionActivities env existing entry)) < expectedCount entry"
  shows "filter (\<lambda>a. act_type a = ''Issue opened'') (combinedActivities env existing entry) =
           filter (\<lambda>a. act_type a = ''Issue opened'') (unionActivities env existing entry) @
           replicate 2
             \<lparr>act_type = ''Issue opened'', act_title = ''Issue opened contribution'',
              act_occured_at = ''1970-01-01T00:00:00.000Z'', act_link = [],
              act_points = b_points info\<rparr> \<and>
         (length (combinedActivities env existing entry) \<le> 15 \<longrightarrow>
            ce_activities (mergedEntry env existing entry) =
              Some (combinedActivities env existing entry))"
proof -
  let ?u = "unionActivities env existing entry"
  have c: "combinedActivities env existing entry = addPlaceholders ?u (ce_activity_breakdown entry)"
    using assms(5) by (simp add: combinedActivities_def Let_def)
  have "nat (b_count info - int (length (filter (\<lambda>a. act_type a = ''Issue opened'') ?u))) = 2"
    using assms(2,4) by (simp add: countOfType_def)
  with addPlaceholders_filter [OF assms(3), of "''Issue opened''" ?u] assms(1)
  have "filter (\<lambda>a. act_type a = ''Issue opened'') (combinedActivities env existing entry) =
      filter (\<lambda>a. act_type a = ''Issue opened'') ?u @ replicate 2 (placeholder ''Issue opened'' info)"
    unfolding c by simp
  then show ?thesis
    by (simp add: placeholder_def epochISO_def mergedEntry_def)
qed

theorem placeholders_fill_declared_count_witness:
  "mapGet (ce_activity_breakdown yearAlice) ''Issue opened'' = Some \<lparr>b_count = 3, b_points = 3\<rparr> \<and>
   distinct (map fst (ce_activity_breakdown yearAlice)) \<and>
   countOfType ''Issue opened'' (unionActivities exampleEnv monthAlice yearAlice) = 1 \<and>
   int (length (unionActivities exampleEnv monthAlice yearAlice)) < expectedCount yearAlice \<and>
   countOfType ''Issue opened'' (combinedActivities exampleEnv monthAlice yearAlice) = 3 \<and>
   length (combinedActivities exampleEnv monthAlice yearAlice) \<le> 15 \<and>
   ce_activities (mergedEntry exampleEnv monthAlice yearAlice) =
     Some (combinedActivities exampleEnv monthAlice yearAlice) \<and>
   placeholdersIn ''Issue opened'' (mergedEntry exampleEnv monthAlice yearAlice) = 2"
proof -
  have three: "b_count \<lparr>b_count = 3, b_points = 3\<rparr> = 3" by simp
  note inst = placeholders_fill_declared_count
    [OF placeholder_examples(1) three placeholder_examples(2) placeholder_examples(3)
      placeholder_examples(4)]
  from inst
  have "countOfType ''Issue opened'' (combinedActivities exampleEnv monthAlice yearAlice) =
        countOfType ''Issue opened'' (unionActivities exampleEnv monthAlice yearAlice) + 2"
    by (simp add: countOfType_def)
  then have cnt: "countOfType ''Issue opened'' (combinedActivities exampleEnv monthAlice yearAlice) = 3"
    by (simp add: placeholder_examples)
  have len: "length (combinedActivities exampleEnv monthAlice yearAlice) \<le> 15"
    by (simp add: placeholder_examples)
  from inst len
  have served: "ce_activities (mergedEntry exampleEnv monthAlice yearAlice) =
     Some (combinedActivities exampleEnv monthAlice yearAlice)" by blast
  from placeholder_examples(1,2,3,4,5) cnt len served show ?thesis by (intro conjI)
qed

text \<open>
  As the claim is written it fails. When the union holds as many activities as the
  later entry declares in all, nothing is appended; and when the real activities
  fill the 15 places, the placeholders are cut off.
\<close>

theorem placeholders_counterexample:
  "mapGet (ce_activity_breakdown yearAlice) ''Issue opened'' = Some \<lparr>b_count = 3, b_points = 3\<rparr> \<and>
   countOfType ''Issue opened'' (unionActivities exampleEnv crowdedFirst yearAlice) = 1 \<and>
   placeholdersIn ''Issue opened'' (mergedEntry exampleEnv crowdedFirst yearAlice) = 0 \<and>
   mapGet (ce_activity_breakdown cappedLater) ''Issue opened'' = Some \<lparr>b_count = 3, b_points = 3\<rparr> \<and>
   countOfType ''Issue opened'' (unionActivities exampleEnv cappedFirst cappedLater) = 1 \<and>
   placeholdersIn ''Issue opened'' (mergedEntry exampleEnv cappedFirst cappedLater) = 0"
  by code_simp

section \<open>Bot accounts\<close>

lemma isBotUser_iff:
  "isBotUser (Some u) \<longleftrightarrow>
     login u = [] \<or> (truthy (user_type u) \<and> user_type u \<noteq> Str ''User'') \<or>
     endsWith (login u) ''[bot]''"
  by auto

declare isBotUser.simps [simp del]

lemma allAdmitted_simps:
  "allAdmitted S []"
  "allAdmitted S (u # us) \<longleftrightarrow> (\<not> isBotUser (Some u) \<longrightarrow> login u \<in> S) \<and> allAdmitted S us"
  "allAdmitted S (us @ vs) \<longleftrightarrow> allAdmitted S us \<and> allAdmitted S vs"
  by (auto simp: allAdmitted_def)

lemma mapSet_elem:
  "(k, u) \<in> set (mapSet m k0 v) \<Longrightarrow> (k = k0 \<and> u = v) \<or> (k, u) \<in> set m"
  by (induction m) (auto split: if_splits)

lemma mapModify_elem:
  "(k, u) \<in> set (mapModify m k0 f) \<Longrightarrow> (k, u) \<in> set m \<or> (\<exists>u0. (k, u0) \<in> set m \<and> u = f u0)"
proof (induction m)
  case Nil
  then show ?case by simp
next
  case (Cons e m)
  obtain k' v where e: "e = (k', v)" by (cases e)
  show ?case
  proof (cases "k0 = k'")
    case True
    with Cons.prems e have "(k, u) = (k', f v) \<or> (k, u) \<in> set m" by simp
    with e show ?thesis by auto
  next
    case False
    with Cons.prems e have "(k, u) = (k', v) \<or> (k, u) \<in> set (mapModify m k0 f)" by simp
    with Cons.IH e show ?thesis by auto
  qed
qed

lemma knownUsers_mapSet:
  "knownUsers S users \<Longrightarrow> username v = k \<Longrightarrow> k \<in> S \<Longrightarrow> knownUsers S (mapSet users k v)"
  unfolding knownUsers_def using mapSet_elem by fast

lemma knownUsers_mapModify:
  assumes "knownUsers S users" "\<And>u. username (f u) = username u"
  shows "knownUsers S (mapModify users k f)"
  unfolding knownUsers_def
proof (clarify)
  fix k' u assume "(k', u) \<in> set (mapModify users k f)"
  from mapModify_elem [OF this] assms show "username u = k' \<and> k' \<in> S"
    by (auto simp: knownUsers_def)
qed

lemma knownUsers_ensureUser:
  "knownUsers S users \<Longrightarrow> login user \<in> S \<Longrightarrow> knownUsers S (ensureUser env users user)"
  by (simp add: ensureUser_def knownUsers_mapSet)

lemma knownUsers_recordActivity:
  "knownUsers S users \<Longrightarrow> login user \<in> S \<Longrightarrow>
   knownUsers S (recordActivity env users user ty date title link)"
  unfolding recordActivity_def
  by (intro knownUsers_mapModify knownUsers_ensureUser) (simp_all add: addActivity_def)

lemma knownUsers_recordOpened:
  "knownUsers S users \<Longrightarrow> allAdmitted S (map si_user items) \<Longrightarrow>
   knownUsers S (recordOpened env ty users items)"
proof (induction items arbitrary: users)
  case Nil
  then show ?case by simp
next
  case (Cons item items)
  from Cons.prems(2) have rest: "allAdmitted S (map si_user items)"
    and this_one: "\<not> isBotUser (Some (si_user item)) \<Longrightarrow> login (si_user item) \<in> S"
    by (simp_all add: allAdmitted_simps)
  show ?case
  proof (cases "isBotUser (Some (si_user item))")
    case True
    with Cons.IH [OF Cons.prems(1) rest] show ?thesis by simp
  next
    case False
    from Cons.prems(1) this_one [OF False]
    have "knownUsers S (recordActivity env users (si_user item) ty
        (si_created_at item) (Str (si_title item)) (Str (si_html_url item)))"
      by (rule knownUsers_recordActivity)
    from Cons.IH [OF this rest] False show ?thesis by simp
  qed
qed

lemma knownUsers_recordMerged:
  "knownUsers S users \<Longrightarrow> allAdmitted S (map si_user items) \<Longrightarrow>
   recordMerged env users items = Inr users' \<Longrightarrow> knownUsers S users'"
proof (induction items arbitrary: users)
  case Nil
  then show ?case by simp
next
  case (Cons item items)
  from Cons.prems(2) have rest: "allAdmitted S (map si_user items)"
    and this_one: "\<not> isBotUser (Some (si_user item)) \<Longrightarrow> login (si_user item) \<in> S"
    by (simp_all add: allAdmitted_simps)
  show ?case
  proof (cases "isBotUser (Some (si_user item))")
    case True
    with Cons.IH [OF Cons.prems(1) rest] Cons.prems(3) show ?thesis by simp
  next
    case False
    from False Cons.prems(3) obtain date where date: "si_closed_at item = Str date"
      by (cases "si_closed_at item") simp_all
    from Cons.prems(1) this_one [OF False]
    have "knownUsers S (recordActivity env users (si_user item) PR_merged
        date (Str (si_title item)) (Str (si_html_url item)))"
      by (rule knownUsers_recordActivity)
    from Cons.IH [OF this rest] Cons.prems(3) False date show ?thesis by simp
  qed
qed

lemma processReview_cases:
  "processReview env since now repoName pr st review = st \<or>
   (\<not> isBotUser (Some (rv_user review)) \<and>
    snd (processReview env since now repoName pr st review) =
      recordActivity env (snd st) (rv_user review) Review_submitted (rv_submitted_at review)
        (Str (reviewTitle (pr_number pr))) (Str (reviewLink repoName (pr_number pr))))"
proof (cases "isBotUser (Some (rv_user review))")
  case True
  then have "processReview env since now repoName pr st review = st"
    unfolding isBotUser_iff processReview_def Let_def by presburger
  then show ?thesis by simp
next
  case False
  then show ?thesis by (simp add: processReview_def Let_def)
qed

lemma processReview_known:
  assumes "knownUsers S (snd st)"
    and "\<not> isBotUser (Some (rv_user review)) \<longrightarrow> login (rv_user review) \<in> S"
  shows "knownUsers S (snd (processReview env since now repoName pr st review))"
  using processReview_cases [of env since now repoName pr st review]
proof
  assume "processReview env since now repoName pr st review = st"
  with assms(1) show ?thesis by simp
next
  assume a: "\<not> isBotUser (Some (rv_user review)) \<and>
    snd (processReview env since now repoName pr st review) =
      recordActivity env (snd st) (rv_user review) Review_submitted (rv_submitted_at review)
        (Str (reviewTitle (pr_number pr))) (Str (reviewLink repoName (pr_number pr)))"
  then have "login (rv_user review) \<in> S" using assms(2) by blast
  with assms(1) a show ?thesis by (simp add: knownUsers_recordActivity)
qed

lemma foldl_processReview_known:
  "knownUsers S (snd st) \<Longrightarrow> allAdmitted S (map rv_user reviews) \<Longrightarrow>
   knownUsers S (snd (foldl (processReview env since now repoName pr) st reviews))"
proof (induction reviews arbitrary: st)
  case Nil
  then show ?case by simp
next
  case (Cons r reviews)
  from Cons.prems(2) have rest: "allAdmitted S (map rv_user reviews)"
    and this_one: "\<not> isBotUser (Some (rv_user r)) \<longrightarrow> login (rv_user r) \<in> S"
    by (simp_all add: allAdmitted_simps)
  have "knownUsers S (snd (processReview env since now repoName pr st r))"
    using Cons.prems(1) this_one by (rule processReview_known)
  from Cons.IH [OF this rest] show ?case by simp
qed

lemma processBatch_known:
  "knownUsers S (snd st) \<Longrightarrow> allAdmitted S (reviewersOf results) \<Longrightarrow>
   knownUsers S (snd (processBatch env since now repoName st results))"
proof (induction results arbitrary: st)
  case Nil
  then show ?case by simp
next
  case (Cons res results)
  obtain pr reviews where res: "res = (pr, reviews)" by (cases res)
  from Cons.prems(2) res have rest: "allAdmitted S (reviewersOf results)"
    and these: "allAdmitted S (map rv_user reviews)"
    by (simp_all add: reviewersOf_def allAdmitted_simps)
  have "knownUsers S (snd (foldl (processReview env since now repoName pr) st reviews))"
    using Cons.prems(1) these by (rule foldl_processReview_known)
  from Cons.IH [OF this rest] res show ?case by simp
qed

lemma foldl_processBatch_known:
  "knownUsers S (snd st) \<Longrightarrow> allAdmitted S (reviewersOf (concat batches)) \<Longrightarrow>
   knownUsers S (snd (foldl (processBatch env since now repoName) st batches))"
proof (induction batches arbitrary: st)
  case Nil
  then show ?case by simp
next
  case (Cons b batches)
  from Cons.prems(2) have rest: "allAdmitted S (reviewersOf (concat batches))"
    and these: "allAdmitted S (reviewersOf b)"
    by (simp_all add: reviewersOf_def allAdmitted_simps)
  have "knownUsers S (snd (processBatch env since now repoName st b))"
    using Cons.prems(1) these by (rule processBatch_known)
  from Cons.IH [OF this rest] show ?case by simp
qed

lemma concat_chunk: "0 < n \<Longrightarrow> concat (chunk xs n) = xs"
proof (induction xs n rule: chunk.induct)
  case (1 arr sz)
  show ?case
  proof (cases "arr = []")
    case True
    then show ?thesis by simp
  next
    case False
    with 1 show ?thesis by simp
  qed
qed

lemma processRepos_known:
  "knownUsers S (snd st) \<Longrightarrow>
   allAdmitted S (concat (map (\<lambda>repo. reviewersOf (snd repo)) repos)) \<Longrightarrow>
   knownUsers S (snd (processRepos env since now st repos))"
proof (induction repos arbitrary: st)
  case Nil
  then show ?case by simp
next
  case (Cons repo repos)
  obtain repoName prs where repo: "repo = (repoName, prs)" by (cases repo)
  from Cons.prems(2) repo
  have rest: "allAdmitted S (concat (map (\<lambda>repo. reviewersOf (snd repo)) repos))"
    and these: "allAdmitted S (reviewersOf prs)"
    by (simp_all add: allAdmitted_simps)
  have "concat (chunk prs BATCH_SIZE) = prs" by (rule concat_chunk) (simp add: BATCH_SIZE_def)
  with these have "allAdmitted S (reviewersOf (concat (chunk prs BATCH_SIZE)))" by simp
  with Cons.prems(1)
  have "knownUsers S (snd (foldl (processBatch env since now repoName) st (chunk prs BATCH_SIZE)))"
    by (rule foldl_processBatch_known)
  from Cons.IH [OF this rest] repo show ?case by simp
qed


lemma processEvent_known:
  assumes "knownUsers S users"
    and "\<not> isBotUser (Some (ev_actor event)) \<longrightarrow> login (ev_actor event) \<in> S"
  shows "knownUsers S (processEvent env since now issue issueNumber users event)"
proof -
  let ?users' = "ensureUser env users (ev_actor event)"
  have base: "knownUsers S ?users'" if "\<not> isBotUser (Some (ev_actor event))"
    using assms that by (simp add: knownUsers_ensureUser)
  have add: "knownUsers S (mapModify ?users' k (\<lambda>entry. addActivity entry ty d p t l))"
    if "\<not> isBotUser (Some (ev_actor event))" for k ty d p t l
    using base [OF that] by (rule knownUsers_mapModify) (simp add: addActivity_def)
  show ?thesis
    by (simp add: processEvent_def Let_def assms(1) base add split: option.split)
qed

lemma foldl_processEvent_known:
  "knownUsers S users \<Longrightarrow> allAdmitted S (map ev_actor events) \<Longrightarrow>
   knownUsers S (foldl (processEvent env since now issue issueNumber) users events)"
proof (induction events arbitrary: users)
  case Nil
  then show ?case by simp
next
  case (Cons ev events)
  from Cons.prems(2) have rest: "allAdmitted S (map ev_actor events)"
    and this_one: "\<not> isBotUser (Some (ev_actor ev)) \<longrightarrow> login (ev_actor ev) \<in> S"
    by (simp_all add: allAdmitted_simps)
  have "knownUsers S (processEvent env since now issue issueNumber users ev)"
    using Cons.prems(1) this_one by (rule processEvent_known)
  from Cons.IH [OF this rest] show ?case by simp
qed

lemma processIssueTriagingEvents_known:
  assumes "knownUsers S users"
    and "allAdmitted S (case response of None \<Rightarrow> [] | Some events \<Rightarrow> map ev_actor events)"
  shows "knownUsers S (processIssueTriagingEvents env users issue since now response)"
proof (cases response)
  case None
  with assms(1) show ?thesis
    by (simp add: processIssueTriagingEvents_def Let_def split: option.split)
next
  case (Some events)
  with assms(2) have "allAdmitted S (map ev_actor events)" by simp
  with assms(1) have "knownUsers S (foldl (processEvent env since now issue n) users events)" for n
    by (rule foldl_processEvent_known)
  with assms(1) Some show ?thesis
    by (simp add: processIssueTriagingEvents_def Let_def split: option.split)
qed

lemma fetchIssueTriagingActivities_known:
  "knownUsers S users \<Longrightarrow> allAdmitted S (eventActors issues) \<Longrightarrow>
   knownUsers S (fetchIssueTriagingActivities env users since now issues)"
proof (induction issues arbitrary: users)
  case Nil
  then show ?case by simp
next
  case (Cons iss issues)
  obtain issue response where iss: "iss = (issue, response)" by (cases iss)
  from Cons.prems(2) iss have rest: "allAdmitted S (eventActors issues)"
    and these: "allAdmitted S (case response of None \<Rightarrow> [] | Some events \<Rightarrow> map ev_actor events)"
    by (simp_all add: eventActors_def allAdmitted_simps)
  have "knownUsers S (processIssueTriagingEvents env users issue since now response)"
    using Cons.prems(1) these by (rule processIssueTriagingEvents_known)
  from Cons.IH [OF this rest] iss show ?case by simp
qed

lemma mergeEntries_known:
  "knownUsers S users \<Longrightarrow> username ` set entries \<subseteq> S \<Longrightarrow>
   knownUsers S (mergeEntries users entries)"
proof (induction entries arbitrary: users)
  case Nil
  then show ?case by simp
next
  case (Cons e entries)
  from Cons.prems(2) have inS: "username e \<in> S" and rest: "username ` set entries \<subseteq> S" by auto
  let ?users' = "if mapGet users (username e) = None
           then mapSet users (username e) (newUser e) else users"
  have "knownUsers S ?users'"
    using Cons.prems(1) inS by (simp add: knownUsers_mapSet newUser_def)
  then have "knownUsers S (mapModify ?users' (username e)
      (\<lambda>user. user\<lparr>raw_activities := raw_activities user @ raw_activities e\<rparr>))"
    by (rule knownUsers_mapModify) simp
  from Cons.IH [OF this rest] show ?case by (simp add: Let_def)
qed

lemma deduplicateAndRecalculate_known:
  "knownUsers S users \<Longrightarrow> knownUsers S (deduplicateAndRecalculate lc users)"
  by (auto simp: knownUsers_def deduplicateAndRecalculate_def recalculateUser_def Let_def)

lemma yearEntries_known:
  "knownUsers S users \<Longrightarrow> username ` set (yearEntries users) \<subseteq> S"
  by (auto simp: knownUsers_def yearEntries_def set_sortBy)

lemma collectUsers_known:
  assumes "collectUsers env clock existing fetched = Inr users"
  shows "knownUsers (admitted fetched existing) users"
proof -
  let ?S = "admitted fetched existing"
  have "allAdmitted ?S (actors fetched)"
    by (auto simp: allAdmitted_def admitted_def)
  then have a1: "allAdmitted ?S (map si_user (prsOpened fetched))"
    and a2: "allAdmitted ?S (map si_user (prsMerged fetched))"
    and a3: "allAdmitted ?S (map si_user (issuesOpened fetched))"
    and a4: "allAdmitted ?S (concat (map (\<lambda>repo. reviewersOf (snd repo)) (repoReviews fetched)))"
    and a5: "allAdmitted ?S (eventActors (updatedIssues fetched))"
    by (simp_all add: actors_def allAdmitted_simps)
  have k0: "knownUsers ?S []" by (simp add: knownUsers_def)
  let ?users1 = "recordOpened env PR_opened [] (prsOpened fetched)"
  have k1: "knownUsers ?S ?users1" using k0 a1 by (rule knownUsers_recordOpened)
  from assms obtain users2 where m: "recordMerged env ?users1 (prsMerged fetched) = Inr users2"
    by (auto simp: collectUsers_def Let_def split: sum.splits)
  have k2: "knownUsers ?S users2" using k1 a2 m by (rule knownUsers_recordMerged)
  let ?users3 = "recordOpened env Issue_opened users2 (issuesOpened fetched)"
  have k3: "knownUsers ?S ?users3" using k2 a3 by (rule knownUsers_recordOpened)
  let ?users4 = "fetchAllReviews env ?users3 (fetchSince env clock existing) (atStart clock)
      (repoReviews fetched)"
  have k4: "knownUsers ?S ?users4"
    unfolding fetchAllReviews_def using a4 by (intro processRepos_known) (simp_all add: k3)
  let ?users5 = "fetchIssueTriagingActivities env ?users4 (fetchSince env clock existing)
      (atStart clock) (updatedIssues fetched)"
  have k5: "knownUsers ?S ?users5" using k4 a5 by (rule fetchIssueTriagingActivities_known)
  let ?users6 = "if isIncremental existing then mergeExistingActivities ?users5 existing else ?users5"
  have k6: "knownUsers ?S ?users6"
  proof (cases existing)
    case None
    with k5 show ?thesis by (simp add: mergeExistingActivities_def)
  next
    case (Some ex)
    then have "username ` set (ex_entries ex) \<subseteq> ?S" by (auto simp: admitted_def)
    with k5 have "knownUsers ?S (mergeEntries ?users5 (ex_entries ex))" by (rule mergeEntries_known)
    with k5 Some show ?thesis by (simp add: mergeExistingActivities_def)
  qed
  from assms m have "users = deduplicateAndRecalculate (localeCompare env) ?users6"
    by (simp add: collectUsers_def Let_def)
  with k6 show ?thesis by (simp add: deduplicateAndRecalculate_known)
qed


lemma periodEntry_username: "periodEntry env cutoff c = Some e \<Longrightarrow> ue_username e = username c"
  by (auto simp: periodEntry_def Let_def split: if_splits)

lemma derivePeriod_usernames:
  "ue_username ` set (pd_entries (derivePeriod env clock source days period))
     \<subseteq> username ` set (yd_entries source)"
  by (auto simp: derivePeriod_def Let_def set_sortBy set_map_filter dest!: periodEntry_username)

lemma groupItems_pushGroup:
  "set (groupItems (pushGroup groups day item)) = insert item (set (groupItems groups))"
proof (induction groups)
  case Nil
  show ?case by (simp add: groupItems_def)
next
  case (Cons g groups)
  obtain k items where g: "g = (k, items)" by (cases g)
  show ?case
  proof (cases "day = k")
    case True
    with g show ?thesis by (auto simp: groupItems_def)
  next
    case False
    with g have "groupItems (pushGroup (g # groups) day item) =
        items @ groupItems (pushGroup groups day item)"
      and "groupItems (g # groups) = items @ groupItems groups"
      by (simp_all add: groupItems_def)
    with Cons.IH show ?thesis by auto
  qed
qed

lemma recentStep_items:
  assumes "ri_username ` set (groupItems groups) \<subseteq> U" "username entry \<in> U"
  shows "ri_username ` set (groupItems (recentStep env cutoff entry groups act)) \<subseteq> U"
proof (cases "dateLess (parseDate env (splitT0 (ra_occured_at act))) cutoff")
  case True
  with assms(1) show ?thesis by (simp add: recentStep_def Let_def)
next
  case False
  then show ?thesis
    using assms by (simp add: recentStep_def Let_def groupItems_pushGroup)
qed

lemma foldl_recentStep_items:
  "ri_username ` set (groupItems groups) \<subseteq> U \<Longrightarrow> username entry \<in> U \<Longrightarrow>
   ri_username ` set (groupItems (foldl (recentStep env cutoff entry) groups acts)) \<subseteq> U"
proof (induction acts arbitrary: groups)
  case Nil
  then show ?case by simp
next
  case (Cons a acts)
  from recentStep_items [OF Cons.prems, of env cutoff a]
  have "ri_username ` set (groupItems (recentStep env cutoff entry groups a)) \<subseteq> U" .
  from Cons.IH [OF this Cons.prems(2)] show ?case by simp
qed

lemma recent_entries_items:
  "ri_username ` set (groupItems groups) \<subseteq> U \<Longrightarrow> username ` set entries \<subseteq> U \<Longrightarrow>
   ri_username ` set (groupItems
      (foldl (\<lambda>groups entry. foldl (recentStep env cutoff entry) groups (raw_activities entry))
         groups entries)) \<subseteq> U"
proof (induction entries arbitrary: groups)
  case Nil
  then show ?case by simp
next
  case (Cons e entries)
  from Cons.prems(2) have inU: "username e \<in> U" and rest: "username ` set entries \<subseteq> U" by auto
  from foldl_recentStep_items [OF Cons.prems(1) inU, of env cutoff "raw_activities e"]
  have "ri_username ` set (groupItems
      (foldl (recentStep env cutoff e) groups (raw_activities e))) \<subseteq> U" .
  from Cons.IH [OF this rest] show ?case by simp
qed

lemma recent_usernames:
  "set (recentUsernames (generateRecentActivities env tc tu source days))
     \<subseteq> username ` set (yd_entries source)"
  using recent_entries_items [of "[]" "username ` set (yd_entries source)" "yd_entries source"
      env "daysAgo env tc days"]
  by (simp add: recentUsernames_def generateRecentActivities_def groupItems_def)

lemma served_no_bot:
  assumes "GET env (Some files) = Inr served"
  shows "list_all (\<lambda>p. \<not> isBot (ce_username p)) (sv_people served)"
proof -
  let ?all = "foldl (mergeStep env) [] (fileEntries files)"
  have "mergeInv [] []" by (simp add: mergeInv_def)
  from foldl_mergeStep_inv [OF this, of "fileEntries files" env]
  have inv: "mergeInv (fileEntries files) ?all" by simp
  from assms have "sv_people served =
      sortBy (\<lambda>a b. ce_total_points b - ce_total_points a) (map snd ?all)"
    using foldl_mergeFile [of env "([], 0)" files] by (auto simp: GET_def Let_def)
  then have people: "set (sv_people served) = snd ` set ?all" by (simp add: set_sortBy)
  show ?thesis
    unfolding list_all_iff
  proof
    fix p assume "p \<in> set (sv_people served)"
    with people obtain k where "(k, p) \<in> set ?all" by auto
    with inv have "ce_username p = k \<and> \<not> isBot k" unfolding mergeInv_def by blast
    then show "\<not> isBot (ce_username p)" by simp
  qed
qed

text \<open>
  Claim C4, as the code has it. The generator excludes an actor by \<open>isBotUser\<close>
  only: a missing login, an account type other than User, or a login that ends
  in [bot]. Every username in the year, month, week and recent-activities output
  of a run is the login of a fetched actor that passes this check, or a username
  of the prior year snapshot. The naming rules -bot, _bot and the list of known
  automation accounts are applied, ignoring case, by the people route: no entry
  that it serves has a matching username.
\<close>

theorem outputs_hold_admitted_users_only:
  assumes "generateYear env clock existing fetched = Inr out"
  shows "username ` set (yd_entries (out_year out)) \<subseteq> admitted fetched existing \<and>
         ue_username ` set (pd_entries (out_month out)) \<subseteq> admitted fetched existing \<and>
         ue_username ` set (pd_entries (out_week out)) \<subseteq> admitted fetched existing \<and>
         set (recentUsernames (out_recent out)) \<subseteq> admitted fetched existing \<and>
         (\<forall>files served. GET env (Some files) = Inr served \<longrightarrow>
            list_all (\<lambda>p. \<not> isBot (ce_username p)) (sv_people served))"
proof -
  from generateYear_Inr [OF assms] obtain users where
    users: "collectUsers env clock existing fetched = Inr users"
    and y: "out_year out = yearDataOf env clock users"
    and w: "out_week out = derivePeriod env (weekClock clock) (out_year out) 7 ''week''"
    and m: "out_month out = derivePeriod env (monthClock clock) (out_year out) 30 ''month''"
    and r: "out_recent out =
             generateRecentActivities env (atRecentCutoff clock) (atRecentUpdated clock)
               (out_year out) 14"
    by blast
  have year: "username ` set (yd_entries (out_year out)) \<subseteq> admitted fetched existing"
    using yearEntries_known [OF collectUsers_known [OF users]] by (simp add: y yearDataOf_def)
  have month: "ue_username ` set (pd_entries (out_month out)) \<subseteq> admitted fetched existing"
    using derivePeriod_usernames [of env "monthClock clock" "out_year out" 30 "''month''"] year
    unfolding m [symmetric] by (rule subset_trans)
  have week: "ue_username ` set (pd_entries (out_week out)) \<subseteq> admitted fetched existing"
    using derivePeriod_usernames [of env "weekClock clock" "out_year out" 7 "''week''"] year
    unfolding w [symmetric] by (rule subset_trans)
  have recent: "set (recentUsernames (out_recent out)) \<subseteq> admitted fetched existing"
    using recent_usernames [of env "atRecentCutoff clock" "atRecentUpdated clock" "out_year out" 14]
      year
    unfolding r [symmetric] by (rule subset_trans)
  have served: "\<forall>files served. GET env (Some files) = Inr served \<longrightarrow>
            list_all (\<lambda>p. \<not> isBot (ce_username p)) (sv_people served)"
    by (intro allI impI) (rule served_no_bot)
  from year month week recent served show ?thesis by (intro conjI)
qed

lemma admitted_examples:
  "''dependabot[bot]'' \<notin> admitted exampleFetched None"
  "''deploy-bot'' \<in> admitted exampleFetched None"
  "isBot ''deploy-bot''"
  "''deploy-bot'' \<in> set (map username (yd_entries (out_year exampleOut)))"
  by code_simp+

theorem outputs_hold_admitted_users_only_witness:
  "generateYear exampleEnv exampleClock None exampleFetched = Inr exampleOut \<and>
   username ` set (yd_entries (out_year exampleOut)) \<subseteq> admitted exampleFetched None \<and>
   ''dependabot[bot]'' \<notin> admitted exampleFetched None \<and>
   ''dependabot[bot]'' \<notin> username ` set (yd_entries (out_year exampleOut)) \<and>
   GET exampleEnv (Some exampleFiles) = Inr exampleServed \<and>
   list_all (\<lambda>p. \<not> isBot (ce_username p)) (sv_people exampleServed)"
proof -
  have run: "generateYear exampleEnv exampleClock None exampleFetched = Inr exampleOut"
    using exampleRun_ok by (simp add: exampleRun_def)
  note inst = outputs_hold_admitted_users_only [OF run]
  from inst have sub: "username ` set (yd_entries (out_year exampleOut))
      \<subseteq> admitted exampleFetched None" by (rule conjunct1)
  with admitted_examples(1)
  have out: "''dependabot[bot]'' \<notin> username ` set (yd_entries (out_year exampleOut))" by blast
  from inst served_examples(1)
  have people: "list_all (\<lambda>p. \<not> isBot (ce_username p)) (sv_people exampleServed)" by blast
  from run sub admitted_examples(1) out served_examples(1) people show ?thesis by (intro conjI)
qed

text \<open>
  As the claim is written it fails: the account deploy-bot, of type User, matches
  the naming rule -bot and is an entry of the year snapshot.
\<close>

theorem bot_named_account_counterexample:
  "generateYear exampleEnv exampleClock None exampleFetched = Inr exampleOut \<and>
   isBot ''deploy-bot'' \<and>
   ''deploy-bot'' \<in> set (map username (yd_entries (out_year exampleOut)))"
  using exampleRun_ok admitted_examples(3,4) by (simp add: exampleRun_def)

end
